theory Spec2Isabelle
  imports Complex_Main "HOL-Library.AList"
begin

section \<open>Python values, dictionaries and exceptions\<close>

text \<open>
  A Python float is a finite real number, an infinity or NaN.  Comparisons, \<open>min\<close> and
  \<open>max\<close> treat NaN and the infinities as Python does; arithmetic on finite numbers is exact
  (neither rounding nor overflow to an infinity is modelled).  An integer is unbounded and
  converts to a float only below the float range.  A Python \<open>dict\<close> is an association list
  in insertion order whose keys are unique: \<open>d[k] = v\<close> is \<open>AList.update k v d\<close> (replace in
  place, or append a new key), \<open>d.get(k)\<close> is \<open>map_of d k\<close>.  Every raise of the source is
  a value of \<open>exn\<close>.  What the network and the clock do is an argument of each operation: the
  outcome of a connection attempt, of a send and of a receive, and the readings of
  \<open>time.time()\<close>.  What an operation prints, sends and sleeps is returned as a list of
  effects.
\<close>

datatype exn =
    KeyError
  | IndexError
  | TypeError
  | ValueError
  | AttributeError
  | OverflowError
  | TimeoutError
  | ConnectionClosed
  | RuntimeError string
  | OtherError

datatype pyfloat = Fin real | PosInf | NegInf | NaN

fun flt :: "pyfloat \<Rightarrow> pyfloat \<Rightarrow> bool" where
  \<comment> \<open>\<open>a < b\<close>: false whenever NaN is involved\<close>
  "flt (Fin a) (Fin b) = (a < b)"
| "flt (Fin a) PosInf = True"
| "flt NegInf (Fin b) = True"
| "flt NegInf PosInf = True"
| "flt a b = False"

definition fle :: "pyfloat \<Rightarrow> pyfloat \<Rightarrow> bool" where
  \<comment> \<open>\<open>a <= b\<close>\<close>
  "fle a b \<longleftrightarrow> flt a b \<or> (a = b \<and> a \<noteq> NaN)"

fun fneg :: "pyfloat \<Rightarrow> pyfloat" where
  "fneg (Fin a) = Fin (- a)"
| "fneg PosInf = NegInf"
| "fneg NegInf = PosInf"
| "fneg NaN = NaN"

fun fadd :: "pyfloat \<Rightarrow> pyfloat \<Rightarrow> pyfloat" where
  "fadd (Fin a) (Fin b) = Fin (a + b)"
| "fadd NaN b = NaN"
| "fadd a NaN = NaN"
| "fadd PosInf NegInf = NaN"
| "fadd NegInf PosInf = NaN"
| "fadd PosInf b = PosInf"
| "fadd a PosInf = PosInf"
| "fadd NegInf b = NegInf"
| "fadd a NegInf = NegInf"

definition fsub :: "pyfloat \<Rightarrow> pyfloat \<Rightarrow> pyfloat" where
  "fsub a b = fadd a (fneg b)"

definition py_max :: "pyfloat \<Rightarrow> pyfloat \<Rightarrow> pyfloat" where
  \<comment> \<open>\<open>max(a, b)\<close>: the first argument unless the second is greater\<close>
  "py_max a b = (if flt a b then b else a)"

definition py_min :: "pyfloat \<Rightarrow> pyfloat \<Rightarrow> pyfloat" where
  \<comment> \<open>\<open>min(a, b)\<close>: the first argument unless the second is smaller\<close>
  "py_min a b = (if flt b a then b else a)"

text \<open>
  A Python value of the kinds that \<open>json.loads\<close> yields; the values of an action are of
  these kinds too.  \<open>JObj\<close> carries the items of a \<open>dict\<close> in insertion order (keys unique),
  read with \<open>map_of\<close>.  Two builtins are parameters: \<open>str\<close> of a value that is not a
  string, and \<open>float\<close> of a string (\<open>None\<close> where it raises \<open>ValueError\<close>).
\<close>

datatype json =
    JNull
  | JBool bool
  | JInt int
  | JFloat pyfloat
  | JStr string
  | JArr "json list"
  | JObj "(string \<times> json) list"

record builtins =
  str_of :: "json \<Rightarrow> string"
  float_of_str :: "string \<Rightarrow> pyfloat option"

definition float_limit :: int where
  \<comment> \<open>the integers of absolute value below this bound round to a float; the others raise\<close>
  "float_limit = 2 ^ 1024 - 2 ^ 970"

definition int_to_float :: "int \<Rightarrow> exn + pyfloat" where
  "int_to_float i = (if \<bar>i\<bar> < float_limit then Inr (Fin (of_int i)) else Inl OverflowError)"

definition py_float :: "builtins \<Rightarrow> json \<Rightarrow> exn + pyfloat" where
  \<comment> \<open>\<open>float(v)\<close>\<close>
  "py_float B v =
     (case v of
        JNull \<Rightarrow> Inl TypeError
      | JBool b \<Rightarrow> Inr (Fin (if b then 1 else 0))
      | JInt i \<Rightarrow> int_to_float i
      | JFloat x \<Rightarrow> Inr x
      | JStr s \<Rightarrow> (case float_of_str B s of None \<Rightarrow> Inl ValueError | Some x \<Rightarrow> Inr x)
      | JArr xs \<Rightarrow> Inl TypeError
      | JObj kvs \<Rightarrow> Inl TypeError)"

type_synonym 'v dict = "(string \<times> 'v) list"

definition dict_of :: "('k \<times> 'v) list \<Rightarrow> ('k \<times> 'v) list" where
  \<comment> \<open>a dict comprehension or \<open>dict(pairs)\<close>: later pairs overwrite earlier ones\<close>
  "dict_of ps = fold (\<lambda>(k, v). AList.update k v) ps []"

definition subscript :: "('k \<times> 'v) list \<Rightarrow> 'k \<Rightarrow> exn + 'v" where
  \<comment> \<open>\<open>d[k]\<close>\<close>
  "subscript d k = (case map_of d k of None \<Rightarrow> Inl KeyError | Some v \<Rightarrow> Inr v)"

definition get_default :: "('k \<times> 'v) list \<Rightarrow> 'k \<Rightarrow> 'v \<Rightarrow> 'v" where
  \<comment> \<open>\<open>d.get(k, default)\<close>\<close>
  "get_default d k dflt = (case map_of d k of None \<Rightarrow> dflt | Some v \<Rightarrow> v)"

fun map_exn :: "('a \<Rightarrow> exn + 'b) \<Rightarrow> 'a list \<Rightarrow> exn + 'b list" where
  "map_exn f [] = Inr []"
| "map_exn f (x # xs) =
     (case f x of
        Inl e \<Rightarrow> Inl e
      | Inr y \<Rightarrow> (case map_exn f xs of Inl e \<Rightarrow> Inl e | Inr ys \<Rightarrow> Inr (y # ys)))"

definition endswith :: "string \<Rightarrow> string \<Rightarrow> bool" where
  "endswith s suf \<longleftrightarrow> length suf \<le> length s \<and> drop (length s - length suf) s = suf"

definition removesuffix :: "string \<Rightarrow> string \<Rightarrow> string" where
  "removesuffix s suf = (if endswith s suf then take (length s - length suf) s else s)"

definition pos_key :: "string \<Rightarrow> string" where
  \<comment> \<open>\<open>f"{jn}.pos"\<close>\<close>
  "pos_key jn = jn @ ''.pos''"

section \<open>The follower: configuration and state\<close>

datatype rel_target = RelFloat pyfloat | RelDict "pyfloat dict"

record config =
  ws_url :: string
  joint_names :: "string list"
  max_relative_target :: "rel_target option"
  joint_min :: "pyfloat list option"
  joint_max :: "pyfloat list option"

definition default_config :: config where
  \<comment> \<open>the field defaults of \<open>SO101WebSimFollowerConfig\<close>\<close>
  "default_config =
     \<lparr> ws_url = ''ws://127.0.0.1:8765'',
       joint_names = [''shoulder_pan'', ''shoulder_lift'', ''elbow_flex'', ''wrist_flex'',
                      ''wrist_roll'', ''gripper''],
       max_relative_target = None, joint_min = None, joint_max = None \<rparr>"

type_synonym handle = nat

record follower =
  ws :: "handle option"
  seq :: nat
  last_send_log :: real
  last_obs :: "pyfloat dict"

record command =
  cmd_seq :: nat
  cmd_names :: "string list"
  cmd_target :: "pyfloat list"
  cmd_timestamp :: real

datatype effect =
    Connecting real
  | Sleep real
  | Sending command
  | PrintConnected
  | PrintConnectFailed nat
  | PrintWarnEmptyGoal
  | PrintCmd "pyfloat list"
  | PrintSendFailed exn

definition init :: "config \<Rightarrow> real \<Rightarrow> follower" where
  \<comment> \<open>\<open>__init__\<close>: every configured joint at 0.0, timestamp = construction time\<close>
  "init cfg now =
     \<lparr> ws = None, seq = 0, last_send_log = 0,
       last_obs = AList.update ''timestamp'' (Fin now)
                    (dict_of (map (\<lambda>jn. (pos_key jn, Fin 0)) (joint_names cfg))) \<rparr>"

definition is_connected :: "follower \<Rightarrow> bool" where
  "is_connected s \<longleftrightarrow> ws s \<noteq> None"

section \<open>Running a coroutine\<close>

text \<open>
  A coroutine is a function from the follower's state to what it returns or raises and the
  state it leaves.  \<open>asyncio.wait_for\<close> with a timeout that is not positive cancels a
  coroutine that has not started before its first step and raises \<open>TimeoutError\<close>: nothing
  of the coroutine runs.  With a positive timeout the coroutine runs, and whether it reaches
  the bound is part of what the environment makes it do.
\<close>

definition wait_for ::
  "real \<Rightarrow> (follower \<Rightarrow> (exn + 'a) \<times> follower) \<Rightarrow> follower \<Rightarrow> (exn + 'a) \<times> follower" where
  "wait_for timeout coro s = (if timeout \<le> 0 then (Inl TimeoutError, s) else coro s)"

definition run ::
  "(follower \<Rightarrow> (exn + 'a) \<times> follower) \<Rightarrow> real option \<Rightarrow> follower
     \<Rightarrow> (exn + 'a option) \<times> follower" where
  \<comment> \<open>\<open>_run\<close>: the awaited result, \<open>None\<close> on \<open>asyncio.TimeoutError\<close>, any other
      exception propagates\<close>
  "run coro timeout s =
     (case (case timeout of None \<Rightarrow> coro s | Some t \<Rightarrow> wait_for t coro s) of
        (Inr x, s') \<Rightarrow> (Inr (Some x), s')
      | (Inl e, s') \<Rightarrow> if e = TimeoutError then (Inr None, s') else (Inl e, s'))"

section \<open>Shaping and sending a command\<close>

definition goal_of_action :: "builtins \<Rightarrow> json dict \<Rightarrow> exn + pyfloat dict" where
  \<comment> \<open>line 89: \<open>{k.removesuffix(".pos"): float(v) for k, v in action.items()
      if k.endswith(".pos")}\<close>\<close>
  "goal_of_action B action =
     (case map_exn (\<lambda>(k, v). case py_float B v of
                               Inl e \<Rightarrow> Inl e
                             | Inr x \<Rightarrow> Inr (removesuffix k ''.pos'', x))
                   (filter (\<lambda>(k, v). endswith k ''.pos'') action) of
        Inl e \<Rightarrow> Inl e
      | Inr ps \<Rightarrow> Inr (dict_of ps))"

definition pos_entries :: "pyfloat dict \<Rightarrow> pyfloat dict" where
  \<comment> \<open>line 98: \<open>{k.removesuffix(".pos"): d[k] for k in d if k.endswith(".pos")}\<close>\<close>
  "pos_entries d =
     dict_of (map (\<lambda>(k, v). (removesuffix k ''.pos'', v))
                  (filter (\<lambda>(k, v). endswith k ''.pos'') d))"

text \<open>
  Modelled from the spec: \<open>ensure_safe_goal_position\<close> is imported from the robots
  package's \<open>utils\<close> module, which is not among the sources.  The spec (4.4, step 2)
  says: if a relative limit is configured for that joint, clamp the candidate so that
  \<open>|candidate - previous| \<le> limit\<close> (clamp toward previous, not reject); the limit is a
  scalar applied to all joints, or a named per-joint mapping.
\<close>

definition limit_for :: "rel_target \<Rightarrow> string \<Rightarrow> pyfloat option" where
  \<comment> \<open>Modelled from the spec: the relative limit configured for a joint, if any\<close>
  "limit_for mrt jn = (case mrt of RelFloat r \<Rightarrow> Some r | RelDict m \<Rightarrow> map_of m jn)"

definition clamp_toward :: "pyfloat \<Rightarrow> pyfloat \<Rightarrow> pyfloat \<Rightarrow> pyfloat" where
  \<comment> \<open>Modelled from the spec: the candidate clamped toward the previous value\<close>
  "clamp_toward cand prev r =
     (if flt r (fsub cand prev) then fadd prev r
      else if flt (fsub cand prev) (fneg r) then fsub prev r
      else cand)"

definition ensure_safe_goal_position ::
  "(pyfloat \<times> pyfloat) dict \<Rightarrow> rel_target \<Rightarrow> pyfloat dict" where
  \<comment> \<open>Modelled from the spec: every joint of \<open>goal_present\<close> with its candidate clamped
      when the joint has a relative limit\<close>
  "ensure_safe_goal_position goal_present mrt =
     map (\<lambda>(jn, (goal, present)).
            (jn, case limit_for mrt jn of
                   None \<Rightarrow> goal
                 | Some r \<Rightarrow> clamp_toward goal present r))
         goal_present"

definition relative_step :: "config \<Rightarrow> pyfloat dict \<Rightarrow> pyfloat dict \<Rightarrow> exn + pyfloat dict" where
  \<comment> \<open>lines 97-100; \<open>present[jn]\<close> is evaluated for every joint, also as the default\<close>
  "relative_step cfg obs goal_pos =
     (case max_relative_target cfg of
        None \<Rightarrow> Inr goal_pos
      | Some mrt \<Rightarrow>
          (let present = pos_entries obs in
           case map_exn (\<lambda>jn. case subscript present jn of
                                 Inl e \<Rightarrow> Inl e
                               | Inr p \<Rightarrow> Inr (jn, (get_default goal_pos jn p, p)))
                        (joint_names cfg) of
             Inl e \<Rightarrow> Inl e
           | Inr goal_present \<Rightarrow> Inr (ensure_safe_goal_position (dict_of goal_present) mrt)))"

fun clamp_loop ::
  "pyfloat list \<Rightarrow> pyfloat list \<Rightarrow> pyfloat dict \<Rightarrow> pyfloat dict \<Rightarrow> (nat \<times> string) list
     \<Rightarrow> pyfloat dict \<Rightarrow> exn + pyfloat dict" where
  "clamp_loop los his goal_pos obs [] clamped = Inr clamped"
| "clamp_loop los his goal_pos obs ((i, jn) # rest) clamped =
     (if length los \<le> i then Inl IndexError
      else if length his \<le> i then Inl IndexError
      else case subscript obs (pos_key jn) of
             Inl e \<Rightarrow> Inl e
           | Inr p \<Rightarrow>
               clamp_loop los his goal_pos obs rest
                 (AList.update jn
                    (py_min (py_max (get_default goal_pos jn p) (los ! i)) (his ! i))
                    clamped))"

definition truthy :: "'a list option \<Rightarrow> bool" where
  \<comment> \<open>truth value of an optional list: neither \<open>None\<close> nor empty\<close>
  "truthy xs \<longleftrightarrow> (case xs of None \<Rightarrow> False | Some l \<Rightarrow> l \<noteq> [])"

definition absolute_step :: "config \<Rightarrow> pyfloat dict \<Rightarrow> pyfloat dict \<Rightarrow> exn + pyfloat dict" where
  \<comment> \<open>lines 103-110\<close>
  "absolute_step cfg obs goal_pos =
     (if truthy (joint_min cfg) \<and> truthy (joint_max cfg)
      then clamp_loop (the (joint_min cfg)) (the (joint_max cfg)) goal_pos obs
             (enumerate 0 (joint_names cfg)) []
      else Inr goal_pos)"

definition target_of :: "config \<Rightarrow> pyfloat dict \<Rightarrow> pyfloat dict \<Rightarrow> exn + pyfloat list" where
  \<comment> \<open>line 118\<close>
  "target_of cfg obs goal_pos =
     map_exn (\<lambda>jn. case subscript obs (pos_key jn) of
                     Inl e \<Rightarrow> Inl e
                   | Inr p \<Rightarrow> Inr (get_default goal_pos jn p))
             (joint_names cfg)"

definition shape_goal :: "config \<Rightarrow> pyfloat dict \<Rightarrow> pyfloat dict \<Rightarrow> exn + pyfloat list" where
  \<comment> \<open>lines 97-118: from the goal of line 89 to the target list of the payload\<close>
  "shape_goal cfg obs goal_pos =
     (case relative_step cfg obs goal_pos of
        Inl e \<Rightarrow> Inl e
      | Inr g1 \<Rightarrow>
          (case absolute_step cfg obs g1 of
             Inl e \<Rightarrow> Inl e
           | Inr g2 \<Rightarrow> target_of cfg obs g2))"

definition shape :: "builtins \<Rightarrow> config \<Rightarrow> pyfloat dict \<Rightarrow> json dict \<Rightarrow> exn + pyfloat list" where
  \<comment> \<open>lines 89-118 without the warning: the target list of the payload\<close>
  "shape B cfg obs action =
     (case goal_of_action B action of
        Inl e \<Rightarrow> Inl e
      | Inr goal_pos \<Rightarrow> shape_goal cfg obs goal_pos)"

datatype send_outcome = SendOk | SendClosed | SendTimeout | SendError

definition async_send :: "send_outcome \<Rightarrow> follower \<Rightarrow> (exn + unit) \<times> follower" where
  \<comment> \<open>\<open>_async_send\<close>; the outcome of the socket's send is given by the environment\<close>
  "async_send net s =
     (case ws s of
        None \<Rightarrow> (Inl (RuntimeError ''websocket not connected''), s)
      | Some h \<Rightarrow>
          (case net of
             SendOk \<Rightarrow> (Inr (), s)
           | SendClosed \<Rightarrow> (Inl ConnectionClosed, s\<lparr>ws := None\<rparr>)
           | SendTimeout \<Rightarrow> (Inl TimeoutError, s)
           | SendError \<Rightarrow> (Inl OtherError, s)))"

definition send_failed :: "send_outcome \<Rightarrow> follower \<Rightarrow> bool" where
  \<comment> \<open>the send raises inside \<open>_async_send\<close>\<close>
  "send_failed net s \<longleftrightarrow> ws s = None \<or> net \<noteq> SendOk"

definition send_action ::
  "builtins \<Rightarrow> config \<Rightarrow> real \<Rightarrow> real \<Rightarrow> send_outcome \<Rightarrow> follower \<Rightarrow> json dict
     \<Rightarrow> (exn + pyfloat dict) \<times> follower \<times> effect list" where
  \<comment> \<open>\<open>t_payload\<close> and \<open>t_log\<close> are the two readings of \<open>time.time()\<close>.  The target has
      one entry per joint name (line 118), so \<open>payload["target"][i]\<close> is the entry zipped
      with the i-th name.\<close>
  "send_action B cfg t_payload t_log net s action =
     (case goal_of_action B action of
        Inl e \<Rightarrow> (Inl e, s, [])
      | Inr goal_pos \<Rightarrow>
          (let warn = (if goal_pos = [] then [PrintWarnEmptyGoal] else []) in
           case shape_goal cfg (last_obs s) goal_pos of
             Inl e \<Rightarrow> (Inl e, s, warn)
           | Inr target \<Rightarrow>
               (let s1 = s\<lparr>seq := seq s + 1\<rparr>;
                    payload = \<lparr> cmd_seq = seq s1, cmd_names = joint_names cfg,
                                cmd_target = target, cmd_timestamp = t_payload \<rparr>;
                    logged = (t_log - last_send_log s1 > 1 \<or> seq s1 < 5);
                    s2 = (if logged then s1\<lparr>last_send_log := t_log\<rparr> else s1);
                    fx_log = (if logged then [PrintCmd (take 3 target)] else []);
                    (r, s3) = run (async_send net) None s2;
                    fx_send = (if ws s2 = None then [] else [Sending payload])
                              @ (case r of Inl e \<Rightarrow> [PrintSendFailed e] | Inr u \<Rightarrow> []);
                    obs1 = fold (\<lambda>(jn, v). AList.update (pos_key jn) v)
                                (zip (joint_names cfg) target) (last_obs s3);
                    obs2 = AList.update ''timestamp'' (Fin t_payload) obs1
                in (Inr (dict_of (map (\<lambda>(jn, v). (pos_key jn, v))
                                      (zip (joint_names cfg) target))),
                    s3\<lparr>last_obs := obs2\<rparr>,
                    warn @ fx_log @ fx_send))))"

section \<open>Connecting\<close>

definition async_connect :: "exn + handle \<Rightarrow> follower \<Rightarrow> (exn + unit) \<times> follower" where
  \<comment> \<open>\<open>_async_connect\<close>: the environment gives a handle, or the exception raised
      (\<open>TimeoutError\<close> when the bound of \<open>wait_for\<close> is reached)\<close>
  "async_connect r s = (case r of Inr h \<Rightarrow> (Inr (), s\<lparr>ws := Some h\<rparr>) | Inl e \<Rightarrow> (Inl e, s))"

fun connect_loop :: "(nat \<Rightarrow> exn + handle) \<Rightarrow> nat list \<Rightarrow> follower \<Rightarrow> follower \<times> effect list" where
  "connect_loop net [] s = (s, [])"
| "connect_loop net (attempt # rest) s =
     (let (r, s1) = run (async_connect (net attempt)) (Some 2) s in
      case r of
        Inr u \<Rightarrow> (s1, [Connecting 2, PrintConnected])
      | Inl e \<Rightarrow>
          (let (s2, fx) = connect_loop net rest s1
           in (s2, [Connecting 2, PrintConnectFailed (attempt + 1), Sleep (1 / 2)] @ fx)))"

definition connect ::
  "(nat \<Rightarrow> exn + handle) \<Rightarrow> follower \<Rightarrow> (exn + unit) \<times> follower \<times> effect list" where
  \<comment> \<open>\<open>net attempt\<close> is what the network does at the given attempt\<close>
  "connect net s =
     (if is_connected s then (Inl (RuntimeError ''already connected''), s, [])
      else (let (s1, fx) = connect_loop net [0..<10] s in
            if \<not> is_connected s1
            then (Inl (RuntimeError ''websim follower: cannot connect to simulator''), s1, fx)
            else (Inr (), s1, fx)))"

definition attempts :: "effect list \<Rightarrow> nat" where
  "attempts fx = length (filter (\<lambda>e. case e of Connecting t \<Rightarrow> True | _ \<Rightarrow> False) fx)"

section \<open>Receiving an observation\<close>

definition py_iter :: "json \<Rightarrow> exn + json list" where
  \<comment> \<open>the items an iteration yields: list elements, the characters of a string, the keys
      of a dict; anything else is not iterable\<close>
  "py_iter v =
     (case v of
        JArr xs \<Rightarrow> Inr xs
      | JStr s \<Rightarrow> Inr (map (\<lambda>c. JStr [c]) s)
      | JObj kvs \<Rightarrow> Inr (map (\<lambda>(k, x). JStr k) kvs)
      | _ \<Rightarrow> Inl TypeError)"

definition py_len :: "json \<Rightarrow> exn + nat" where
  \<comment> \<open>\<open>len(v)\<close>\<close>
  "py_len v =
     (case v of
        JArr xs \<Rightarrow> Inr (length xs)
      | JStr s \<Rightarrow> Inr (length s)
      | JObj kvs \<Rightarrow> Inr (length kvs)
      | _ \<Rightarrow> Inl TypeError)"

definition hashable :: "json \<Rightarrow> bool" where
  "hashable v \<longleftrightarrow> (case v of JArr xs \<Rightarrow> False | JObj kvs \<Rightarrow> False | _ \<Rightarrow> True)"

definition num_of :: "json \<Rightarrow> pyfloat option" where
  "num_of v =
     (case v of
        JBool b \<Rightarrow> Some (Fin (if b then 1 else 0))
      | JInt i \<Rightarrow> Some (Fin (of_int i))
      | JFloat x \<Rightarrow> Some x
      | _ \<Rightarrow> None)"

definition py_eq :: "json \<Rightarrow> json \<Rightarrow> bool" where
  \<comment> \<open>equality of dict keys: numbers and booleans compare by value\<close>
  "py_eq a b =
     (case (num_of a, num_of b) of
        (Some x, Some y) \<Rightarrow> x = y
      | (None, None) \<Rightarrow> a = b
      | _ \<Rightarrow> False)"

fun dict_put :: "json \<Rightarrow> json \<Rightarrow> (json \<times> json) list \<Rightarrow> (json \<times> json) list" where
  "dict_put k v [] = [(k, v)]"
| "dict_put k v ((k', v') # d) =
     (if py_eq k' k then (k', v) # d else (k', v') # dict_put k v d)"

definition py_dict :: "(json \<times> json) list \<Rightarrow> exn + (json \<times> json) list" where
  \<comment> \<open>\<open>dict(zip(...))\<close>: an unhashable key raises before anything is merged\<close>
  "py_dict ps =
     (if list_all (\<lambda>(k, v). hashable k) ps
      then Inr (fold (\<lambda>(k, v). dict_put k v) ps [])
      else Inl TypeError)"

definition key_str :: "builtins \<Rightarrow> json \<Rightarrow> string" where
  \<comment> \<open>\<open>f"{jn}"\<close>\<close>
  "key_str B jn = (case jn of JStr s \<Rightarrow> s | _ \<Rightarrow> str_of B jn)"

definition name_to_val :: "config \<Rightarrow> (string \<times> json) list \<Rightarrow> exn + (json \<times> json) list" where
  \<comment> \<open>lines 72-77\<close>
  "name_to_val cfg data =
     (case (map_of data ''names'', map_of data ''joint_pos'') of
        (Some ns, Some jp) \<Rightarrow>
          (case py_iter ns of
             Inl e \<Rightarrow> Inl e
           | Inr nl \<Rightarrow> (case py_iter jp of Inl e \<Rightarrow> Inl e | Inr vl \<Rightarrow> py_dict (zip nl vl)))
      | (None, Some (JArr vl)) \<Rightarrow> py_dict (zip (map JStr (joint_names cfg)) vl)
      | _ \<Rightarrow> Inr [])"

fun merge_items ::
  "builtins \<Rightarrow> (json \<times> json) list \<Rightarrow> pyfloat dict \<Rightarrow> exn option \<times> pyfloat dict" where
  \<comment> \<open>lines 78-81; an exception leaves the entries written so far in place\<close>
  "merge_items B [] obs = (None, obs)"
| "merge_items B ((jn, v) # rest) obs =
     (let key = pos_key (key_str B jn) in
      if map_of obs key \<noteq> None
      then (case py_float B v of
              Inl e \<Rightarrow> (Some e, obs)
            | Inr x \<Rightarrow> merge_items B rest (AList.update key x obs))
      else merge_items B rest obs)"

definition frame_time :: "(string \<times> json) list \<Rightarrow> real \<Rightarrow> json" where
  \<comment> \<open>\<open>data.get("timestamp", time.time())\<close>\<close>
  "frame_time kvs now =
     (case map_of kvs ''timestamp'' of None \<Rightarrow> JFloat (Fin now) | Some t \<Rightarrow> t)"

definition handle_state ::
  "builtins \<Rightarrow> config \<Rightarrow> real \<Rightarrow> json \<Rightarrow> pyfloat dict \<Rightarrow> exn option \<times> pyfloat dict" where
  \<comment> \<open>the body of the \<open>try\<close>, lines 70-82, after \<open>json.loads\<close>: the exception that
      ends it (if any) and the cache it leaves\<close>
  "handle_state B cfg now data obs =
     (case data of
        JObj kvs \<Rightarrow>
          (if map_of kvs ''type'' = Some (JStr ''state'')
           then (case name_to_val cfg kvs of
                   Inl e \<Rightarrow> (Some e, obs)
                 | Inr items \<Rightarrow>
                     (case merge_items B items obs of
                        (Some e, obs1) \<Rightarrow> (Some e, obs1)
                      | (None, obs1) \<Rightarrow>
                          (case py_float B (frame_time kvs now) of
                             Inl e \<Rightarrow> (Some e, obs1)
                           | Inr t \<Rightarrow> (None, AList.update ''timestamp'' t obs1))))
           else (None, obs))
      | _ \<Rightarrow> (Some AttributeError, obs))"

definition merge_message ::
  "builtins \<Rightarrow> config \<Rightarrow> real \<Rightarrow> json option option \<Rightarrow> follower \<Rightarrow> follower" where
  \<comment> \<open>lines 68-84: \<open>msg\<close> is \<open>None\<close>, or a text whose \<open>json.loads\<close> raises (\<open>Some None\<close>;
      an empty text is skipped by \<open>if msg\<close> to the same effect), or a text that decodes;
      the \<open>except\<close> swallows every exception of the body\<close>
  "merge_message B cfg now msg s =
     (case msg of
        Some (Some data) \<Rightarrow> s\<lparr>last_obs := snd (handle_state B cfg now data (last_obs s))\<rparr>
      | _ \<Rightarrow> s)"

datatype recv_outcome =
    RecvNothing
  | RecvClosed
  | RecvError
  | RecvText "json option"

definition ws_recv :: "recv_outcome \<Rightarrow> follower \<Rightarrow> (exn + json option) \<times> follower" where
  \<comment> \<open>what \<open>self._ws.recv()\<close> does under \<open>wait_for\<close> once it runs, as the environment has
      it: no message within the bound, a closed connection, another exception, or a text
      (given by what \<open>json.loads\<close> makes of it)\<close>
  "ws_recv net s =
     (case net of
        RecvNothing \<Rightarrow> (Inl TimeoutError, s)
      | RecvClosed \<Rightarrow> (Inl ConnectionClosed, s)
      | RecvError \<Rightarrow> (Inl OtherError, s)
      | RecvText m \<Rightarrow> (Inr m, s))"

definition async_try_recv ::
  "recv_outcome \<Rightarrow> follower \<Rightarrow> (exn + json option option) \<times> follower" where
  \<comment> \<open>\<open>_async_try_recv\<close>, lines 171-180\<close>
  "async_try_recv net s =
     (case ws s of
        None \<Rightarrow> (Inr None, s)
      | Some h \<Rightarrow>
          (case wait_for 0 (ws_recv net) s of
             (Inr m, s') \<Rightarrow> (Inr (Some m), s')
           | (Inl e, s') \<Rightarrow>
               if e = TimeoutError then (Inr None, s')
               else if e = ConnectionClosed then (Inr None, s'\<lparr>ws := None\<rparr>)
               else (Inl e, s')))"

definition get_observation ::
  "builtins \<Rightarrow> config \<Rightarrow> real \<Rightarrow> recv_outcome \<Rightarrow> follower
     \<Rightarrow> (exn + pyfloat dict) \<times> follower" where
  \<comment> \<open>lines 66-85; \<open>net\<close> is what is pending on the socket\<close>
  "get_observation B cfg now net s =
     (case run (async_try_recv net) (Some 0) s of
        (Inl e, s1) \<Rightarrow> (Inl e, s1)
      | (Inr msg, s1) \<Rightarrow>
          (let s2 = merge_message B cfg now (case msg of None \<Rightarrow> None | Some m \<Rightarrow> m) s1
           in (Inr (last_obs s2), s2)))"

section \<open>The simulator endpoint: command ingestion\<close>

definition JOINT_NAMES :: "string list" where
  "JOINT_NAMES =
     [''shoulder_pan'', ''shoulder_lift'', ''elbow_flex'', ''wrist_flex'', ''wrist_roll'',
      ''gripper'']"

datatype sim_print =
    BadJson
  | NonCmd
  | UnsupportedMode
  | BadTargetLen nat
  | CmdApplied "json list"

definition format_error :: "json \<Rightarrow> exn option" where
  \<comment> \<open>\<open>f"{v:+.3f}"\<close>: floats and booleans format, an integer formats when it converts
      to a float, anything else raises\<close>
  "format_error v =
     (case v of
        JBool b \<Rightarrow> None
      | JInt i \<Rightarrow> (case int_to_float i of Inl e \<Rightarrow> Some e | Inr x \<Rightarrow> None)
      | JFloat x \<Rightarrow> None
      | JStr s \<Rightarrow> Some ValueError
      | _ \<Rightarrow> Some TypeError)"

fun first_error :: "json list \<Rightarrow> exn option" where
  "first_error [] = None"
| "first_error (v # vs) = (case format_error v of Some e \<Rightarrow> Some e | None \<Rightarrow> first_error vs)"

definition rx_frame :: "json option \<Rightarrow> json list \<Rightarrow> exn option \<times> json list \<times> sim_print list" where
  \<comment> \<open>one iteration of \<open>rx_loop\<close> on a message whose \<open>json.loads\<close> gives the first
      argument; returns the exception that leaves the loop (if any), \<open>q\<close>, and what is
      printed\<close>
  "rx_frame msg q =
     (case msg of
        None \<Rightarrow> (None, q, [BadJson])
      | Some (JObj d) \<Rightarrow>
          (if map_of d ''type'' \<noteq> Some (JStr ''cmd'') then (None, q, [NonCmd])
           else if map_of d ''mode'' \<noteq> Some (JStr ''joint_position'')
           then (None, q, [UnsupportedMode])
           else (let tgt = get_default d ''target'' (JArr []) in
                 case tgt of
                   JArr xs \<Rightarrow>
                     (if length xs = length JOINT_NAMES
                      then (case first_error (take 6 xs) of
                              Some e \<Rightarrow> (Some e, xs, [])
                            | None \<Rightarrow> (None, xs, [CmdApplied (take 6 xs)]))
                      else (None, q, [BadTargetLen (length xs)]))
                 | _ \<Rightarrow>
                     (case py_len tgt of
                        Inl e \<Rightarrow> (Some e, q, [])
                      | Inr n \<Rightarrow> (None, q, [BadTargetLen n]))))
      | Some _ \<Rightarrow> (Some AttributeError, q, []))"

fun rx_loop :: "json option list \<Rightarrow> json list \<Rightarrow> exn option \<times> json list \<times> sim_print list" where
  "rx_loop [] q = (None, q, [])"
| "rx_loop (msg # rest) q =
     (case rx_frame msg q of
        (Some e, q', out) \<Rightarrow> (Some e, q', out)
      | (None, q', out) \<Rightarrow>
          (case rx_loop rest q' of (r, q'', out') \<Rightarrow> (r, q'', out @ out')))"

section \<open>Well-formed configurations and states; the inputs of the scenarios\<close>

definition obs_ok :: "config \<Rightarrow> pyfloat dict \<Rightarrow> bool" where
  \<comment> \<open>the cache is a dict (unique keys) with an entry for every configured joint, as
      \<open>__init__\<close> builds it and every operation keeps it\<close>
  "obs_ok cfg obs \<longleftrightarrow>
     distinct (map fst obs) \<and> (\<forall>jn \<in> set (joint_names cfg). map_of obs (pos_key jn) \<noteq> None)"

definition bounds_in_effect :: "config \<Rightarrow> bool" where
  \<comment> \<open>the test of line 103\<close>
  "bounds_in_effect cfg \<longleftrightarrow> truthy (joint_min cfg) \<and> truthy (joint_max cfg)"

definition wf_config :: "config \<Rightarrow> bool" where
  \<comment> \<open>joint names are pairwise different, and bounds in effect cover every joint\<close>
  "wf_config cfg \<longleftrightarrow>
     distinct (joint_names cfg) \<and>
     (bounds_in_effect cfg \<longrightarrow>
        length (joint_names cfg) \<le> length (the (joint_min cfg)) \<and>
        length (joint_names cfg) \<le> length (the (joint_max cfg)))"

definition rel_value :: "config \<Rightarrow> pyfloat dict \<Rightarrow> string \<Rightarrow> pyfloat \<Rightarrow> pyfloat" where
  \<comment> \<open>the candidate for joint \<open>jn\<close> with previous position \<open>p\<close> after lines 97-100\<close>
  "rel_value cfg goal_pos jn p =
     (let cand = get_default goal_pos jn p in
      case max_relative_target cfg of
        None \<Rightarrow> cand
      | Some mrt \<Rightarrow> (case limit_for mrt jn of None \<Rightarrow> cand | Some r \<Rightarrow> clamp_toward cand p r))"

definition shaped_value :: "config \<Rightarrow> pyfloat dict \<Rightarrow> nat \<Rightarrow> pyfloat \<Rightarrow> pyfloat" where
  \<comment> \<open>the i-th entry of the target in closed form, for the goal of line 89 and previous
      position \<open>p\<close>\<close>
  "shaped_value cfg goal_pos i p =
     (let v = rel_value cfg goal_pos (joint_names cfg ! i) p in
      if bounds_in_effect cfg
      then py_min (py_max v (the (joint_min cfg) ! i)) (the (joint_max cfg) ! i)
      else v)"

definition prev :: "pyfloat dict \<Rightarrow> string \<Rightarrow> pyfloat" where
  \<comment> \<open>the cached position of a joint that has an entry\<close>
  "prev obs jn = the (map_of obs (pos_key jn))"

definition scenario_cfg :: config where
  \<comment> \<open>joints a and b with relative limit 0.1 and no absolute bounds\<close>
  "scenario_cfg =
     \<lparr> ws_url = ''ws://127.0.0.1:8765'', joint_names = [''a'', ''b''],
       max_relative_target = Some (RelFloat (Fin (1 / 10))), joint_min = None,
       joint_max = None \<rparr>"

definition bounded_cfg :: config where
  \<comment> \<open>one joint with relative limit 0.1 and absolute bounds [1, 2]\<close>
  "bounded_cfg =
     \<lparr> ws_url = ''ws://127.0.0.1:8765'', joint_names = [''a''],
       max_relative_target = Some (RelFloat (Fin (1 / 10))),
       joint_min = Some [Fin 1], joint_max = Some [Fin 2] \<rparr>"

definition plain_builtins :: builtins where
  \<comment> \<open>builtins for inputs that hold no string to convert\<close>
  "plain_builtins = \<lparr> str_of = (\<lambda>v. []), float_of_str = (\<lambda>s. None) \<rparr>"

definition range_cfg :: config where
  \<comment> \<open>one joint with absolute bounds [1, 2] and no relative limit\<close>
  "range_cfg =
     \<lparr> ws_url = ''ws://127.0.0.1:8765'', joint_names = [''a''],
       max_relative_target = None, joint_min = Some [Fin 1], joint_max = Some [Fin 2] \<rparr>"

definition scenario_b_state :: follower where
  \<comment> \<open>a connected follower whose cache holds a = 0.3, b = -0.2\<close>
  "scenario_b_state =
     \<lparr> ws = Some 1, seq = 0, last_send_log = 0,
       last_obs = [(''a.pos'', Fin (3 / 10)), (''b.pos'', Fin (- 2 / 10)),
                   (''timestamp'', Fin 0)] \<rparr>"

definition connected :: "config \<Rightarrow> follower" where
  \<comment> \<open>a freshly constructed follower holding a connection\<close>
  "connected cfg = (init cfg 0)\<lparr>ws := Some 1\<rparr>"

definition good_cmd :: json where
  \<comment> \<open>a well-formed command with target 1.0, ..., 6.0\<close>
  "good_cmd =
     JObj [(''type'', JStr ''cmd''), (''mode'', JStr ''joint_position''),
           (''names'', JArr (map JStr JOINT_NAMES)),
           (''target'', JArr [JFloat (Fin 1), JFloat (Fin 2), JFloat (Fin 3), JFloat (Fin 4),
                              JFloat (Fin 5), JFloat (Fin 6)])]"

section \<open>Properties\<close>

subsection \<open>Dictionaries, keys and lists\<close>

lemma map_of_fold_update:
  "map_of (fold (\<lambda>(k, v). AList.update k v) ps d) = map_of d ++ map_of (rev ps)"
  by (induction ps arbitrary: d) (auto simp: update_conv' fun_eq_iff map_add_def split: option.splits)

lemma map_of_dict_of: "map_of (dict_of ps) = map_of (rev ps)"
  by (simp add: dict_of_def map_of_fold_update)

lemma distinct_fold_update:
  "distinct (map fst d) \<Longrightarrow> distinct (map fst (fold (\<lambda>(k, v). AList.update k v) ps d))"
  by (induction ps arbitrary: d) (auto simp: distinct_update)

lemma map_of_rev_distinct:
  assumes "distinct (map fst xs)"
  shows "map_of (rev xs) = map_of xs"
proof (rule ext)
  fix k
  have d: "distinct (map fst (rev xs))" using assms by (simp add: rev_map[symmetric])
  show "map_of (rev xs) k = map_of xs k"
  proof (cases "map_of xs k")
    case None
    then have "k \<notin> fst ` set xs" by (simp add: map_of_eq_None_iff)
    then have "map_of (rev xs) k = None" by (simp add: map_of_eq_None_iff)
    with None show ?thesis by simp
  next
    case (Some v)
    then have "(k, v) \<in> set xs" by (rule map_of_SomeD)
    then have "(k, v) \<in> set (rev xs)" by simp
    then have "map_of (rev xs) k = Some v" using d by (simp only: map_of_eq_Some_iff)
    with Some show ?thesis by simp
  qed
qed

lemma map_of_rev_graph:
  assumes "inj f"
  shows "map_of (rev (map (\<lambda>x. (f x, h x)) xs)) (f y) = (if y \<in> set xs then Some (h y) else None)"
  using assms by (induction xs) (auto simp: map_add_def inj_eq map_of_eq_None_iff image_iff split: option.splits)

lemma get_default_Some: "map_of d k = Some v \<Longrightarrow> get_default d k dflt = v"
  by (simp add: get_default_def)

lemma subscript_Some: "map_of d k = Some v \<Longrightarrow> subscript d k = Inr v"
  by (simp add: subscript_def)

lemma map_exn_all:
  "(\<And>x. x \<in> set xs \<Longrightarrow> f x = Inr (g x)) \<Longrightarrow> map_exn f xs = Inr (map g xs)"
  by (induction xs) simp_all

lemma map_exn_graph: "map_exn f xs = Inr ys \<Longrightarrow> ys = map (\<lambda>x. projr (f x)) xs"
  by (induction xs arbitrary: ys) (auto split: sum.splits)

lemma map_exn_nth:
  "map_exn g xs = Inr ys \<Longrightarrow> length ys = length xs \<and> (\<forall>i < length xs. g (xs ! i) = Inr (ys ! i))"
proof (induction xs arbitrary: ys)
  case Nil
  then show ?case by simp
next
  case (Cons x xs)
  then obtain y ys' where "g x = Inr y" "map_exn g xs = Inr ys'" "ys = y # ys'"
    by (auto split: sum.splits)
  with Cons.IH[of ys'] show ?case by (auto simp: nth_Cons split: nat.splits)
qed

lemma endswith_pos_key: "endswith (pos_key jn) ''.pos''"
  by (simp add: endswith_def pos_key_def)

lemma removesuffix_pos_key: "removesuffix (pos_key jn) ''.pos'' = jn"
  by (simp add: removesuffix_def endswith_def pos_key_def)

lemma endswith_split:
  assumes "endswith k ''.pos''"
  shows "pos_key (removesuffix k ''.pos'') = k"
proof -
  have "drop (length k - length ''.pos'') k = ''.pos''"
    using assms unfolding endswith_def by blast
  then have "take (length k - length ''.pos'') k @ ''.pos'' = k"
    using append_take_drop_id[of "length k - length ''.pos''" k] by simp
  then show ?thesis using assms by (simp add: removesuffix_def pos_key_def)
qed

lemma pos_key_inj: "pos_key a = pos_key b \<longleftrightarrow> a = b"
  by (simp add: pos_key_def)

lemma timestamp_not_pos_key: "pos_key jn \<noteq> ''timestamp''"
proof
  assume "pos_key jn = ''timestamp''"
  then have "endswith ''timestamp'' ''.pos''" using endswith_pos_key[of jn] by simp
  then show False by (simp add: endswith_def)
qed

lemma map_of_pos_entries:
  assumes "distinct (map fst d)"
  shows "map_of (pos_entries d) jn = map_of d (pos_key jn)"
proof -
  let ?ps = "map (\<lambda>(k, v). (removesuffix k ''.pos'', v)) (filter (\<lambda>(k, v). endswith k ''.pos'') d)"
  have inj: "inj_on (\<lambda>k. removesuffix k ''.pos'') {k. endswith k ''.pos''}"
    by (rule inj_onI) (metis endswith_split mem_Collect_eq)
  have fst_ps: "map fst ?ps = map (\<lambda>k. removesuffix k ''.pos'') (filter (\<lambda>k. endswith k ''.pos'') (map fst d))"
    by (induction d) auto
  have dist: "distinct (map fst ?ps)"
    unfolding fst_ps using assms
    by (auto simp: distinct_map intro!: inj_on_subset[OF inj])
  have iff: "(jn, v) \<in> set ?ps \<longleftrightarrow> (pos_key jn, v) \<in> set d" for v
  proof
    assume "(jn, v) \<in> set ?ps"
    then obtain k where "(k, v) \<in> set d" "endswith k ''.pos''" "removesuffix k ''.pos'' = jn"
      by auto
    then show "(pos_key jn, v) \<in> set d" using endswith_split by auto
  next
    assume "(pos_key jn, v) \<in> set d"
    then have "(removesuffix (pos_key jn) ''.pos'', v) \<in> set ?ps"
      using endswith_pos_key by (force simp: image_iff)
    then show "(jn, v) \<in> set ?ps" by (simp add: removesuffix_pos_key)
  qed
  have "map_of (pos_entries d) jn = map_of ?ps jn"
    by (simp add: pos_entries_def map_of_dict_of map_of_rev_distinct[OF dist])
  also have "\<dots> = map_of d (pos_key jn)"
  proof (cases "map_of d (pos_key jn)")
    case None
    then have "\<And>v. (pos_key jn, v) \<notin> set d" by (metis assms map_of_eq_Some_iff option.distinct(1))
    then have "\<And>v. (jn, v) \<notin> set ?ps" using iff by blast
    then have "map_of ?ps jn = None" by (metis map_of_SomeD not_Some_eq)
    with None show ?thesis by simp
  next
    case (Some v)
    then have "(pos_key jn, v) \<in> set d" by (rule map_of_SomeD)
    then have "(jn, v) \<in> set ?ps" using iff by blast
    then have "map_of ?ps jn = Some v" using dist by (simp only: map_of_eq_Some_iff)
    with Some show ?thesis by simp
  qed
  finally show ?thesis .
qed

lemma fold_pos_updates:
  "fold (\<lambda>(jn, v). AList.update (pos_key jn) v) ps d =
   fold (\<lambda>(k, v). AList.update k v) (map (\<lambda>(jn, v). (pos_key jn, v)) ps) d"
  by (induction ps arbitrary: d) auto

lemma map_of_updates_index:
  assumes "distinct xs" and "length ys = length xs" and "i < length xs"
  shows "map_of (fold (\<lambda>(k, v). AList.update k v) (map (\<lambda>(jn, v). (pos_key jn, v)) (zip xs ys)) d)
           (pos_key (xs ! i)) = Some (ys ! i)"
proof -
  let ?ps = "map (\<lambda>(jn, v). (pos_key jn, v)) (zip xs ys)"
  have keys: "map fst ?ps = map pos_key xs"
    using assms(2) by (induction xs ys rule: list_induct2') auto
  have dist: "distinct (map fst ?ps)"
    unfolding keys using assms(1) by (simp add: distinct_map inj_on_def pos_key_inj)
  have "(xs ! i, ys ! i) \<in> set (zip xs ys)"
    using assms(2,3) by (auto simp: in_set_zip)
  then have "(pos_key (xs ! i), ys ! i) \<in> set ?ps" by force
  then have "map_of ?ps (pos_key (xs ! i)) = Some (ys ! i)"
    using dist by (simp only: map_of_eq_Some_iff)
  then show ?thesis
    by (simp add: map_of_fold_update map_of_rev_distinct[OF dist] map_add_def)
qed

lemma map_of_updates_graph:
  assumes "i < length xs"
  shows "map_of (fold (\<lambda>(k, v). AList.update k v)
                   (map (\<lambda>(jn, v). (pos_key jn, v)) (zip xs (map h xs))) d)
           (pos_key (xs ! i)) = Some (map h xs ! i)"
proof -
  have z: "map (\<lambda>(jn, v). (pos_key jn, v)) (zip xs (map h xs)) = map (\<lambda>x. (pos_key x, h x)) xs"
    by (induction xs) auto
  have "inj pos_key" by (simp add: inj_on_def pos_key_inj)
  then show ?thesis
    using assms map_of_rev_graph[of pos_key h xs "xs ! i"]
    by (simp add: z map_of_fold_update map_add_def)
qed

lemma map_of_enumerate_updates:
  assumes "distinct xs" and "i < length xs"
  shows "map_of (fold (\<lambda>(i, jn). AList.update jn (cv i jn)) (enumerate n xs) acc) (xs ! i)
           = Some (cv (n + i) (xs ! i))"
proof -
  let ?ps = "map (\<lambda>(i, jn). (jn, cv i jn)) (enumerate n xs)"
  have fold_eq: "fold (\<lambda>(i, jn). AList.update jn (cv i jn)) ys acc' =
                 fold (\<lambda>(k, v). AList.update k v) (map (\<lambda>(i, jn). (jn, cv i jn)) ys) acc'"
    for ys and acc'
    by (induction ys arbitrary: acc') auto
  have keys: "map fst ?ps = xs"
    by (induction xs arbitrary: n) auto
  have dist: "distinct (map fst ?ps)" using assms(1) by (simp only: keys)
  have "(n + i, xs ! i) \<in> set (enumerate n xs)"
    using assms(2) by (simp add: in_set_enumerate_eq)
  then have "(xs ! i, cv (n + i) (xs ! i)) \<in> set ?ps" by force
  then have "map_of ?ps (xs ! i) = Some (cv (n + i) (xs ! i))"
    using dist by (simp only: map_of_eq_Some_iff)
  then show ?thesis
    by (simp add: fold_eq map_of_fold_update map_of_rev_distinct[OF dist] map_add_def)
qed

subsection \<open>Comparisons and the clamp on floats\<close>

lemma clamp_in_bounds:
  assumes "v \<noteq> NaN" and "fle lo hi"
  shows "fle lo (py_min (py_max v lo) hi) \<and> fle (py_min (py_max v lo) hi) hi"
  using assms by (cases v; cases lo; cases hi) (auto simp: fle_def py_min_def py_max_def)

lemma clamp_passes_nan: "py_min (py_max NaN lo) hi = NaN"
  by (simp add: py_min_def py_max_def)

lemma clamp_within: "fle lo p \<Longrightarrow> fle p hi \<Longrightarrow> py_min (py_max p lo) hi = p"
  by (cases p; cases lo; cases hi) (auto simp: fle_def py_min_def py_max_def)

lemma clamp_toward_near:
  "0 \<le> r \<Longrightarrow> \<exists>x. clamp_toward (Fin c) (Fin p) (Fin r) = Fin x \<and> \<bar>x - p\<bar> \<le> r"
  by (auto simp: clamp_toward_def fsub_def abs_le_iff)

lemma clamp_toward_same: "fle (Fin 0) r \<Longrightarrow> clamp_toward p p r = p"
  by (cases p; cases r) (auto simp: clamp_toward_def fsub_def fle_def)

lemma clamp_nonexpansive:
  assumes "fle lo (Fin p)" and "fle (Fin p) hi" and "\<bar>v - p\<bar> \<le> r"
  shows "\<exists>x. py_min (py_max (Fin v) lo) hi = Fin x \<and> \<bar>x - p\<bar> \<le> r"
  using assms
  by (cases lo; cases hi) (auto simp: fle_def py_min_def py_max_def abs_le_iff)

subsection \<open>The cache keeps an entry for every joint\<close>

lemma obs_ok_prev:
  "obs_ok cfg obs \<Longrightarrow> jn \<in> set (joint_names cfg) \<Longrightarrow> map_of obs (pos_key jn) = Some (prev obs jn)"
  by (auto simp: obs_ok_def prev_def)

lemma init_obs_ok: "obs_ok cfg (last_obs (init cfg now))"
proof -
  let ?d = "dict_of (map (\<lambda>jn. (pos_key jn, Fin 0)) (joint_names cfg))"
  have "distinct (map fst ?d)" unfolding dict_of_def by (rule distinct_fold_update) simp
  then have d: "distinct (map fst (AList.update ''timestamp'' (Fin now) ?d))"
    by (rule distinct_update)
  have "inj pos_key" by (simp add: inj_on_def pos_key_inj)
  then have "map_of ?d (pos_key jn) = Some (Fin 0)" if "jn \<in> set (joint_names cfg)" for jn
    using that map_of_rev_graph[of pos_key "\<lambda>_. Fin 0" "joint_names cfg" jn]
    by (simp add: map_of_dict_of)
  then show ?thesis using d
    by (simp add: obs_ok_def init_def update_conv' timestamp_not_pos_key)
qed

subsection \<open>Shaping a command\<close>

lemma map_of_ensure_safe:
  "map_of (ensure_safe_goal_position gp mrt) jn =
     map_option (\<lambda>(g, p). case limit_for mrt jn of None \<Rightarrow> g | Some r \<Rightarrow> clamp_toward g p r)
                (map_of gp jn)"
  by (induction gp) (auto simp: ensure_safe_goal_position_def)

lemma relative_step_ok:
  assumes ok: "obs_ok cfg obs"
  shows "\<exists>g1. relative_step cfg obs goal = Inr g1 \<and>
           (\<forall>jn \<in> set (joint_names cfg).
              get_default g1 jn (prev obs jn) = rel_value cfg goal jn (prev obs jn))"
proof (cases "max_relative_target cfg")
  case None
  then show ?thesis by (simp add: relative_step_def rel_value_def)
next
  case (Some mrt)
  let ?gp = "map (\<lambda>jn. (jn, (get_default goal jn (prev obs jn), prev obs jn))) (joint_names cfg)"
  let ?g1 = "ensure_safe_goal_position (dict_of ?gp) mrt"
  have dist: "distinct (map fst obs)" using ok by (simp add: obs_ok_def)
  have sub: "subscript (pos_entries obs) jn = Inr (prev obs jn)"
    if "jn \<in> set (joint_names cfg)" for jn
    using obs_ok_prev[OF ok that] by (simp add: subscript_def map_of_pos_entries[OF dist])
  have mp: "map_exn (\<lambda>jn. case subscript (pos_entries obs) jn of
                                 Inl e \<Rightarrow> Inl e
                               | Inr p \<Rightarrow> Inr (jn, (get_default goal jn p, p)))
                        (joint_names cfg) = Inr ?gp"
    by (rule map_exn_all) (simp add: sub)
  have step: "relative_step cfg obs goal = Inr ?g1"
    by (simp add: relative_step_def Some mp)
  have look: "map_of ?g1 jn =
                Some (case limit_for mrt jn of
                        None \<Rightarrow> get_default goal jn (prev obs jn)
                      | Some r \<Rightarrow> clamp_toward (get_default goal jn (prev obs jn)) (prev obs jn) r)"
    if "jn \<in> set (joint_names cfg)" for jn
  proof -
    have "map_of (dict_of ?gp) jn = Some (get_default goal jn (prev obs jn), prev obs jn)"
      using map_of_rev_graph[of "\<lambda>x. x" "\<lambda>jn. (get_default goal jn (prev obs jn), prev obs jn)"
                               "joint_names cfg" jn] that
      by (simp add: map_of_dict_of)
    then show ?thesis by (simp add: map_of_ensure_safe)
  qed
  have "get_default ?g1 jn (prev obs jn) = rel_value cfg goal jn (prev obs jn)"
    if "jn \<in> set (joint_names cfg)" for jn
    using get_default_Some[OF look[OF that]] by (simp add: rel_value_def Some Let_def)
  with step show ?thesis by blast
qed

lemma clamp_loop_ok:
  assumes "\<And>jn. jn \<in> set xs \<Longrightarrow> map_of obs (pos_key jn) = Some (prev obs jn)"
    and "n + length xs \<le> length los" and "n + length xs \<le> length his"
  shows "clamp_loop los his g obs (enumerate n xs) acc =
           Inr (fold (\<lambda>(i, jn). AList.update jn
                        (py_min (py_max (get_default g jn (prev obs jn)) (los ! i)) (his ! i)))
                     (enumerate n xs) acc)"
  using assms
proof (induction xs arbitrary: n acc)
  case Nil
  then show ?case by simp
next
  case (Cons x xs)
  have "map_of obs (pos_key x) = Some (prev obs x)" using Cons.prems(1) by simp
  then have sub: "subscript obs (pos_key x) = Inr (prev obs x)" by (rule subscript_Some)
  have ih: "clamp_loop los his g obs (enumerate (Suc n) xs) acc' =
           Inr (fold (\<lambda>(i, jn). AList.update jn
                        (py_min (py_max (get_default g jn (prev obs jn)) (los ! i)) (his ! i)))
                     (enumerate (Suc n) xs) acc')" for acc'
    using Cons.prems by (intro Cons.IH) auto
  show ?case using Cons.prems(2,3) by (simp add: sub ih)
qed

lemma target_of_ok:
  assumes "obs_ok cfg obs"
  shows "target_of cfg obs g = Inr (map (\<lambda>jn. get_default g jn (prev obs jn)) (joint_names cfg))"
  unfolding target_of_def
  by (rule map_exn_all) (simp add: subscript_Some[OF obs_ok_prev[OF assms]])

lemma shape_goal_ok:
  assumes wf: "wf_config cfg" and ok: "obs_ok cfg obs"
  shows "shape_goal cfg obs goal =
           Inr (map (\<lambda>i. shaped_value cfg goal i (prev obs (joint_names cfg ! i)))
                    [0..<length (joint_names cfg)])"
proof -
  let ?names = "joint_names cfg"
  obtain g1 where g1: "relative_step cfg obs goal = Inr g1"
    and rel: "\<And>jn. jn \<in> set ?names \<Longrightarrow>
                get_default g1 jn (prev obs jn) = rel_value cfg goal jn (prev obs jn)"
    using relative_step_ok[OF ok, of goal] by blast
  show ?thesis
  proof (cases "bounds_in_effect cfg")
    case False
    then have abs: "absolute_step cfg obs g1 = Inr g1"
      by (auto simp: absolute_step_def bounds_in_effect_def)
    have "shape_goal cfg obs goal = Inr (map (\<lambda>jn. get_default g1 jn (prev obs jn)) ?names)"
      by (simp add: shape_goal_def g1 abs target_of_ok[OF ok])
    moreover have "map (\<lambda>jn. get_default g1 jn (prev obs jn)) ?names =
                   map (\<lambda>i. shaped_value cfg goal i (prev obs (?names ! i))) [0..<length ?names]"
      by (rule nth_equalityI) (simp_all add: shaped_value_def False rel)
    ultimately show ?thesis by simp
  next
    case True
    let ?los = "the (joint_min cfg)" and ?his = "the (joint_max cfg)"
    let ?cv = "\<lambda>i jn. py_min (py_max (get_default g1 jn (prev obs jn)) (?los ! i)) (?his ! i)"
    let ?g2 = "fold (\<lambda>(i, jn). AList.update jn (?cv i jn)) (enumerate 0 ?names) []"
    have len: "0 + length ?names \<le> length ?los" "0 + length ?names \<le> length ?his"
      using wf True by (simp_all add: wf_config_def)
    have dist: "distinct ?names" using wf by (simp add: wf_config_def)
    have "clamp_loop ?los ?his g1 obs (enumerate 0 ?names) [] = Inr ?g2"
      by (rule clamp_loop_ok[OF obs_ok_prev[OF ok] len])
    then have abs: "absolute_step cfg obs g1 = Inr ?g2"
      using True by (simp add: absolute_step_def bounds_in_effect_def)
    have look: "get_default ?g2 (?names ! i) d = ?cv i (?names ! i)" if "i < length ?names" for i d
      using map_of_enumerate_updates[OF dist that, of ?cv 0 "[]"]
      by (simp add: get_default_def)
    have "shape_goal cfg obs goal = Inr (map (\<lambda>jn. get_default ?g2 jn (prev obs jn)) ?names)"
      by (simp add: shape_goal_def g1 abs target_of_ok[OF ok])
    moreover have "map (\<lambda>jn. get_default ?g2 jn (prev obs jn)) ?names =
                   map (\<lambda>i. shaped_value cfg goal i (prev obs (?names ! i))) [0..<length ?names]"
      by (rule nth_equalityI) (simp_all add: shaped_value_def True rel look)
    ultimately show ?thesis by simp
  qed
qed

lemma shape_of_goal:
  "goal_of_action B action = Inr goal \<Longrightarrow> shape B cfg obs action = shape_goal cfg obs goal"
  by (simp add: shape_def)

lemma shape_graph:
  assumes "shape B cfg obs action = Inr target"
  shows "\<exists>h. target = map h (joint_names cfg)"
proof -
  obtain g2 where "target_of cfg obs g2 = Inr target"
    using assms by (auto simp: shape_def shape_goal_def split: sum.splits)
  then show ?thesis unfolding target_of_def by (blast dest: map_exn_graph)
qed

lemma goal_of_action_empty:
  assumes "\<forall>(k, v) \<in> set action. \<not> endswith k ''.pos''"
  shows "goal_of_action B action = Inr []"
proof -
  have "filter (\<lambda>(k, v). endswith k ''.pos'') action = []"
    using assms by (auto simp: filter_empty_conv)
  then show ?thesis by (simp add: goal_of_action_def dict_of_def)
qed

lemma rel_value_near:
  assumes "max_relative_target cfg = Some mrt" and "limit_for mrt jn = Some (Fin r)"
    and "0 \<le> r" and "get_default goal jn (Fin p) = Fin c"
  shows "\<exists>v. rel_value cfg goal jn (Fin p) = Fin v \<and> \<bar>v - p\<bar> \<le> r"
  using assms clamp_toward_near[of r c p] by (simp add: rel_value_def Let_def)

lemma rel_value_number:
  assumes "get_default goal jn (Fin p) = Fin c"
    and "\<forall>mrt r. max_relative_target cfg = Some mrt \<and> limit_for mrt jn = Some r
           \<longrightarrow> r \<noteq> NaN"
  shows "rel_value cfg goal jn (Fin p) \<noteq> NaN"
proof (cases "max_relative_target cfg")
  case None
  then show ?thesis using assms(1) by (simp add: rel_value_def)
next
  case (Some mrt)
  show ?thesis
  proof (cases "limit_for mrt jn")
    case None
    then show ?thesis using assms(1) Some by (simp add: rel_value_def)
  next
    case (Some r)
    then have "r \<noteq> NaN" using assms(2) \<open>max_relative_target cfg = Some mrt\<close> by blast
    then have "clamp_toward (Fin c) (Fin p) r \<noteq> NaN"
      by (cases r) (auto simp: clamp_toward_def fsub_def)
    then show ?thesis
      using assms(1) Some \<open>max_relative_target cfg = Some mrt\<close> by (simp add: rel_value_def)
  qed
qed

lemma shaped_value_empty:
  assumes "\<forall>mrt r. max_relative_target cfg = Some mrt \<and> limit_for mrt (joint_names cfg ! i) = Some r
           \<longrightarrow> fle (Fin 0) r"
    and "bounds_in_effect cfg \<longrightarrow>
           fle (the (joint_min cfg) ! i) p \<and> fle p (the (joint_max cfg) ! i)"
  shows "shaped_value cfg [] i p = p"
proof -
  have "rel_value cfg [] (joint_names cfg ! i) p = p"
    using assms(1)
    by (auto simp: rel_value_def get_default_def clamp_toward_same split: option.splits)
  then show ?thesis using assms(2) by (auto simp: shaped_value_def clamp_within)
qed

subsection \<open>Sending a command\<close>

lemma last_obs_async_send: "last_obs (snd (run (async_send net) None s)) = last_obs s"
  by (simp add: run_def async_send_def split: option.splits send_outcome.splits)

lemma send_action_result:
  assumes "shape B cfg (last_obs s) action = Inr target"
  shows "fst (send_action B cfg t1 t2 net s action) =
           Inr (dict_of (map (\<lambda>(jn, v). (pos_key jn, v)) (zip (joint_names cfg) target)))"
proof -
  obtain goal where g: "goal_of_action B action = Inr goal"
    and sg: "shape_goal cfg (last_obs s) goal = Inr target"
    using assms by (auto simp: shape_def split: sum.splits)
  show ?thesis by (simp add: send_action_def g sg Let_def split: prod.splits)
qed

lemma send_action_cache:
  assumes "shape B cfg (last_obs s) action = Inr target"
  shows "last_obs (fst (snd (send_action B cfg t1 t2 net s action))) =
           AList.update ''timestamp'' (Fin t1)
             (fold (\<lambda>(jn, v). AList.update (pos_key jn) v) (zip (joint_names cfg) target)
                (last_obs s))"
proof -
  have "last_obs s3 = last_obs s"
    if "run (async_send net) None s2 = (r, s3)" "last_obs s2 = last_obs s"
    for r s2 s3
    using that last_obs_async_send[of net s2] by simp
  moreover obtain goal where g: "goal_of_action B action = Inr goal"
    and sg: "shape_goal cfg (last_obs s) goal = Inr target"
    using assms by (auto simp: shape_def split: sum.splits)
  ultimately show ?thesis
    by (auto simp: send_action_def g sg Let_def split: prod.splits)
qed

lemma send_action_warns:
  assumes "goal_of_action B action = Inr []"
  shows "PrintWarnEmptyGoal \<in> set (snd (snd (send_action B cfg t1 t2 net s action)))"
  using assms by (simp add: send_action_def Let_def split: sum.splits prod.splits)

lemma send_action_shaped:
  assumes wf: "wf_config cfg" and ok: "obs_ok cfg (last_obs s)"
    and i: "i < length (joint_names cfg)"
    and goal: "goal_of_action B action = Inr goal"
  shows "\<exists>res. fst (send_action B cfg t1 t2 net s action) = Inr res \<and>
           map_of res (pos_key (joint_names cfg ! i)) =
             Some (shaped_value cfg goal i (prev (last_obs s) (joint_names cfg ! i)))"
proof -
  let ?names = "joint_names cfg"
  let ?target = "map (\<lambda>i. shaped_value cfg goal i (prev (last_obs s) (?names ! i)))
                     [0..<length ?names]"
  let ?res = "dict_of (map (\<lambda>(jn, v). (pos_key jn, v)) (zip ?names ?target))"
  have sh: "shape B cfg (last_obs s) action = Inr ?target"
    unfolding shape_of_goal[OF goal] by (rule shape_goal_ok[OF wf ok])
  have dist: "distinct ?names" using wf by (simp add: wf_config_def)
  have "map_of ?res (pos_key (?names ! i)) = Some (?target ! i)"
    unfolding dict_of_def by (rule map_of_updates_index[OF dist _ i]) simp
  then have "map_of ?res (pos_key (?names ! i)) =
         Some (shaped_value cfg goal i (prev (last_obs s) (?names ! i)))"
    using i by simp
  with send_action_result[OF sh] show ?thesis by blast
qed

lemma send_action_keeps_obs_ok:
  assumes "obs_ok cfg (last_obs s)"
  shows "obs_ok cfg (last_obs (fst (snd (send_action B cfg t1 t2 net s action))))"
proof (cases "shape B cfg (last_obs s) action")
  case (Inl e)
  then show ?thesis using assms
    by (auto simp: send_action_def shape_def Let_def split: sum.splits)
next
  case (Inr target)
  let ?ps = "map (\<lambda>(jn, v). (pos_key jn, v)) (zip (joint_names cfg) target)"
  let ?obs1 = "fold (\<lambda>(k, v). AList.update k v) ?ps (last_obs s)"
  have cache: "last_obs (fst (snd (send_action B cfg t1 t2 net s action))) =
                 AList.update ''timestamp'' (Fin t1) ?obs1"
    by (simp add: send_action_cache[OF Inr] fold_pos_updates)
  have "distinct (map fst (last_obs s))" using assms by (simp add: obs_ok_def)
  then have d: "distinct (map fst (AList.update ''timestamp'' (Fin t1) ?obs1))"
    by (intro distinct_update distinct_fold_update)
  have "map_of (AList.update ''timestamp'' (Fin t1) ?obs1) (pos_key jn) \<noteq> None"
    if "jn \<in> set (joint_names cfg)" for jn
  proof -
    have "map_of (last_obs s) (pos_key jn) \<noteq> None"
      using assms that unfolding obs_ok_def by blast
    then have "map_of ?obs1 (pos_key jn) \<noteq> None"
      unfolding map_of_fold_update map_add_def by (cases "map_of (rev ?ps) (pos_key jn)") simp_all
    then show ?thesis by (simp add: update_conv' timestamp_not_pos_key del: not_None_eq)
  qed
  with d show ?thesis unfolding obs_ok_def cache by blast
qed

lemma relative_limit_general:
  assumes "wf_config cfg" and "obs_ok cfg (last_obs s)"
    and "max_relative_target cfg = Some mrt"
    and "i < length (joint_names cfg)"
    and "limit_for mrt (joint_names cfg ! i) = Some (Fin r)" and "0 \<le> r"
    and "map_of (last_obs s) (pos_key (joint_names cfg ! i)) = Some (Fin p)"
    and "goal_of_action B action = Inr goal"
    and "get_default goal (joint_names cfg ! i) (Fin p) = Fin c"
    and "bounds_in_effect cfg \<longrightarrow>
           fle (the (joint_min cfg) ! i) (Fin p) \<and> fle (Fin p) (the (joint_max cfg) ! i)"
  shows "\<exists>res x. fst (send_action B cfg t1 t2 net s action) = Inr res \<and>
           map_of res (pos_key (joint_names cfg ! i)) = Some (Fin x) \<and> \<bar>x - p\<bar> \<le> r"
proof -
  have p: "prev (last_obs s) (joint_names cfg ! i) = Fin p" using assms(7) by (simp add: prev_def)
  obtain res where res: "fst (send_action B cfg t1 t2 net s action) = Inr res"
    and look: "map_of res (pos_key (joint_names cfg ! i)) = Some (shaped_value cfg goal i (Fin p))"
    using send_action_shaped[OF assms(1,2,4,8), of t1 t2 net] unfolding p by blast
  obtain v where v: "rel_value cfg goal (joint_names cfg ! i) (Fin p) = Fin v"
    and near: "\<bar>v - p\<bar> \<le> r"
    using rel_value_near[OF assms(3,5,6,9)] by blast
  have "\<exists>x. shaped_value cfg goal i (Fin p) = Fin x \<and> \<bar>x - p\<bar> \<le> r"
  proof (cases "bounds_in_effect cfg")
    case True
    then show ?thesis
      using assms(10) clamp_nonexpansive[OF _ _ near] by (simp add: shaped_value_def Let_def v)
  next
    case False
    then show ?thesis using near by (simp add: shaped_value_def Let_def v)
  qed
  with res look show ?thesis by auto
qed

subsection \<open>The scenarios\<close>

lemmas eval_defs =
  send_action_def goal_of_action_def py_float_def shape_goal_def relative_step_def
  absolute_step_def target_of_def
  pos_entries_def dict_of_def endswith_def removesuffix_def pos_key_def init_def
  ensure_safe_goal_position_def limit_for_def clamp_toward_def fsub_def py_min_def py_max_def
  subscript_def get_default_def
  truthy_def async_send_def run_def Let_def

lemma wf_scenario: "wf_config scenario_cfg"
  by (simp add: wf_config_def scenario_cfg_def bounds_in_effect_def truthy_def)

lemma wf_bounded: "wf_config bounded_cfg"
  by (simp add: wf_config_def bounded_cfg_def bounds_in_effect_def truthy_def)

lemma obs_ok_scenario: "obs_ok scenario_cfg (last_obs (init scenario_cfg t0))"
  by (simp add: obs_ok_def scenario_cfg_def init_def dict_of_def pos_key_def)

lemma obs_ok_bounded: "obs_ok bounded_cfg (last_obs (init bounded_cfg t0))"
  by (simp add: obs_ok_def bounded_cfg_def init_def dict_of_def pos_key_def)

lemma scenario_a_goal:
  "goal_of_action B [(''a.pos'', JFloat (Fin 1)), (''b.pos'', JFloat (Fin (- 1)))]
     = Inr [(''a'', Fin 1), (''b'', Fin (- 1))]"
  by (simp add: goal_of_action_def py_float_def endswith_def removesuffix_def dict_of_def)

subsection \<open>The relative limit (C1)\<close>

text \<open>
  Claim C1, as amended.  With a non-negative relative limit \<open>r\<close> for a joint whose previous
  position \<open>p\<close> lies within the absolute bounds (or when no absolute bounds are in effect),
  the value \<open>send_action\<close> returns for that joint is within \<open>r\<close> of \<open>p\<close>; and with joints
  a, b at 0.0, limit 0.1 and target a = 1.0, b = -1.0 the result is a = 0.1, b = -0.1.
  The target, the previous position and the limit are numbers: the action's values convert
  to float (line 89) and the candidate of the joint is finite.
\<close>

theorem relative_limit_respected:
  "(wf_config cfg \<and> obs_ok cfg (last_obs s) \<and> max_relative_target cfg = Some mrt \<and>
    i < length (joint_names cfg) \<and> limit_for mrt (joint_names cfg ! i) = Some (Fin r) \<and> 0 \<le> r \<and>
    map_of (last_obs s) (pos_key (joint_names cfg ! i)) = Some (Fin p) \<and>
    goal_of_action B action = Inr goal \<and>
    get_default goal (joint_names cfg ! i) (Fin p) = Fin c \<and>
    (bounds_in_effect cfg \<longrightarrow>
       fle (the (joint_min cfg) ! i) (Fin p) \<and> fle (Fin p) (the (joint_max cfg) ! i))
    \<longrightarrow> (\<exists>res x. fst (send_action B cfg t1 t2 net s action) = Inr res \<and>
           map_of res (pos_key (joint_names cfg ! i)) = Some (Fin x) \<and> \<bar>x - p\<bar> \<le> r))
   \<and> fst (send_action B scenario_cfg t1 t2 net (init scenario_cfg t0)
             [(''a.pos'', JFloat (Fin 1)), (''b.pos'', JFloat (Fin (- 1)))])
       = Inr [(''a.pos'', Fin (1 / 10)), (''b.pos'', Fin (- 1 / 10))]"
proof (intro conjI impI)
  assume "wf_config cfg \<and> obs_ok cfg (last_obs s) \<and> max_relative_target cfg = Some mrt \<and>
    i < length (joint_names cfg) \<and> limit_for mrt (joint_names cfg ! i) = Some (Fin r) \<and> 0 \<le> r \<and>
    map_of (last_obs s) (pos_key (joint_names cfg ! i)) = Some (Fin p) \<and>
    goal_of_action B action = Inr goal \<and>
    get_default goal (joint_names cfg ! i) (Fin p) = Fin c \<and>
    (bounds_in_effect cfg \<longrightarrow>
       fle (the (joint_min cfg) ! i) (Fin p) \<and> fle (Fin p) (the (joint_max cfg) ! i))"
  then show "\<exists>res x. fst (send_action B cfg t1 t2 net s action) = Inr res \<and>
           map_of res (pos_key (joint_names cfg ! i)) = Some (Fin x) \<and> \<bar>x - p\<bar> \<le> r"
    using relative_limit_general[of cfg s mrt i r p B action goal c t1 t2 net] by blast
next
  show "fst (send_action B scenario_cfg t1 t2 net (init scenario_cfg t0)
             [(''a.pos'', JFloat (Fin 1)), (''b.pos'', JFloat (Fin (- 1)))])
       = Inr [(''a.pos'', Fin (1 / 10)), (''b.pos'', Fin (- 1 / 10))]"
    by (simp add: eval_defs scenario_cfg_def split: prod.splits)
qed

theorem relative_limit_respected_witness:
  "wf_config scenario_cfg \<and> obs_ok scenario_cfg (last_obs (init scenario_cfg 0)) \<and>
   max_relative_target scenario_cfg = Some (RelFloat (Fin (1 / 10))) \<and>
   1 < length (joint_names scenario_cfg) \<and>
   limit_for (RelFloat (Fin (1 / 10))) (joint_names scenario_cfg ! 1) = Some (Fin (1 / 10)) \<and>
   (0::real) \<le> 1 / 10 \<and>
   map_of (last_obs (init scenario_cfg 0)) (pos_key (joint_names scenario_cfg ! 1)) = Some (Fin 0) \<and>
   goal_of_action plain_builtins [(''a.pos'', JFloat (Fin 1)), (''b.pos'', JFloat (Fin (- 1)))]
     = Inr [(''a'', Fin 1), (''b'', Fin (- 1))] \<and>
   get_default [(''a'', Fin 1), (''b'', Fin (- 1))] (joint_names scenario_cfg ! 1) (Fin 0)
     = Fin (- 1) \<and>
   \<not> bounds_in_effect scenario_cfg \<and>
   (\<exists>res x. fst (send_action plain_builtins scenario_cfg 0 0 SendOk (init scenario_cfg 0)
                  [(''a.pos'', JFloat (Fin 1)), (''b.pos'', JFloat (Fin (- 1)))]) = Inr res \<and>
       map_of res (pos_key (joint_names scenario_cfg ! 1)) = Some (Fin x) \<and> \<bar>x - 0\<bar> \<le> 1 / 10)"
proof -
  have h: "max_relative_target scenario_cfg = Some (RelFloat (Fin (1 / 10)))"
    "1 < length (joint_names scenario_cfg)"
    "limit_for (RelFloat (Fin (1 / 10))) (joint_names scenario_cfg ! 1) = Some (Fin (1 / 10))"
    "(0::real) \<le> 1 / 10"
    "map_of (last_obs (init scenario_cfg 0)) (pos_key (joint_names scenario_cfg ! 1)) = Some (Fin 0)"
    "get_default [(''a'', Fin 1), (''b'', Fin (- 1))] (joint_names scenario_cfg ! 1) (Fin 0)
       = Fin (- 1)"
    "\<not> bounds_in_effect scenario_cfg"
    by (simp_all add: scenario_cfg_def limit_for_def init_def dict_of_def pos_key_def
          bounds_in_effect_def truthy_def get_default_def)
  show ?thesis
    using relative_limit_respected[where cfg = scenario_cfg and s = "init scenario_cfg 0"
            and mrt = "RelFloat (Fin (1 / 10))" and i = 1 and r = "1 / 10" and p = 0
            and B = plain_builtins and goal = "[(''a'', Fin 1), (''b'', Fin (- 1))]"
            and c = "- 1"
            and ?t1.0 = 0 and ?t2.0 = 0 and net = SendOk
            and action = "[(''a.pos'', JFloat (Fin 1)), (''b.pos'', JFloat (Fin (- 1)))]"
            and ?t0.0 = 0]
      wf_scenario obs_ok_scenario[of 0] h scenario_a_goal[of plain_builtins]
    by blast
qed

theorem relative_limit_counterexample:
  "fst (send_action plain_builtins bounded_cfg 0 0 SendOk (init bounded_cfg 0)
          [(''a.pos'', JFloat (Fin 1))])
     = Inr [(''a.pos'', Fin 1)] \<and>
   map_of (last_obs (init bounded_cfg 0)) ''a.pos'' = Some (Fin 0) \<and>
   max_relative_target bounded_cfg = Some (RelFloat (Fin (1 / 10))) \<and>
   \<not> \<bar>(1::real) - 0\<bar> \<le> 1 / 10"
  by (simp add: eval_defs bounded_cfg_def split: prod.splits)

subsection \<open>A failed send (C5)\<close>

text \<open>
  Claim C5.  When shaping has produced a target and the transport send then fails,
  \<open>send_action\<close> still returns normally; what it returns and what the observation cache
  holds afterwards is, for every joint, the shaped target.
\<close>

theorem send_failure_is_not_fatal:
  assumes "shape B cfg (last_obs s) action = Inr target"
    and "send_failed net s"
    and "i < length (joint_names cfg)"
  shows "\<exists>res. fst (send_action B cfg t1 t2 net s action) = Inr res \<and>
           map_of res (pos_key (joint_names cfg ! i)) = Some (target ! i) \<and>
           map_of (last_obs (fst (snd (send_action B cfg t1 t2 net s action))))
                  (pos_key (joint_names cfg ! i)) = Some (target ! i)"
proof -
  obtain h where h: "target = map h (joint_names cfg)"
    using shape_graph[OF assms(1)] by blast
  let ?res = "dict_of (map (\<lambda>(jn, v). (pos_key jn, v)) (zip (joint_names cfg) target))"
  have r: "fst (send_action B cfg t1 t2 net s action) = Inr ?res"
    by (rule send_action_result[OF assms(1)])
  have l1: "map_of ?res (pos_key (joint_names cfg ! i)) = Some (target ! i)"
    unfolding dict_of_def h by (rule map_of_updates_graph[OF assms(3)])
  have l2: "map_of (last_obs (fst (snd (send_action B cfg t1 t2 net s action))))
                  (pos_key (joint_names cfg ! i)) = Some (target ! i)"
    unfolding send_action_cache[OF assms(1)] fold_pos_updates h
    using map_of_updates_graph[OF assms(3), of h "last_obs s"]
    by (simp add: update_conv' timestamp_not_pos_key)
  from r l1 l2 show ?thesis by blast
qed

theorem send_failure_is_not_fatal_witness:
  "shape plain_builtins scenario_cfg (last_obs (connected scenario_cfg))
     [(''a.pos'', JFloat (Fin 1)), (''b.pos'', JFloat (Fin (- 1)))]
     = Inr [Fin (1 / 10), Fin (- 1 / 10)] \<and>
   ws (connected scenario_cfg) = Some 1 \<and>
   send_failed SendClosed (connected scenario_cfg) \<and> 0 < length (joint_names scenario_cfg) \<and>
   (\<exists>res. fst (send_action plain_builtins scenario_cfg 3 4 SendClosed (connected scenario_cfg)
                  [(''a.pos'', JFloat (Fin 1)), (''b.pos'', JFloat (Fin (- 1)))]) = Inr res \<and>
       map_of res (pos_key (joint_names scenario_cfg ! 0)) = Some ([Fin (1 / 10), Fin (- 1 / 10)] ! 0) \<and>
       map_of (last_obs (fst (snd (send_action plain_builtins scenario_cfg 3 4 SendClosed
                  (connected scenario_cfg)
                  [(''a.pos'', JFloat (Fin 1)), (''b.pos'', JFloat (Fin (- 1)))]))))
              (pos_key (joint_names scenario_cfg ! 0)) = Some ([Fin (1 / 10), Fin (- 1 / 10)] ! 0))"
proof -
  have sh: "shape plain_builtins scenario_cfg (last_obs (connected scenario_cfg))
     [(''a.pos'', JFloat (Fin 1)), (''b.pos'', JFloat (Fin (- 1)))]
     = Inr [Fin (1 / 10), Fin (- 1 / 10)]"
    by (simp add: shape_def eval_defs connected_def scenario_cfg_def)
  have h: "send_failed SendClosed (connected scenario_cfg)"
    "0 < length (joint_names scenario_cfg)"
    by (simp_all add: send_failed_def scenario_cfg_def)
  have c: "ws (connected scenario_cfg) = Some 1" by (simp add: connected_def)
  show ?thesis
    using send_failure_is_not_fatal[OF sh h, where ?t1.0 = 3 and ?t2.0 = 4] sh h c by blast
qed

subsection \<open>An empty target (C6)\<close>

text \<open>
  Claim C6, as amended.  An action without any key ending in ".pos" makes \<open>send_action\<close>
  print its warning and return normally, and the value returned for a joint is its previous
  position \<open>p\<close> whenever \<open>p\<close> lies within the joint's absolute bounds (or no bounds are in
  effect) and the joint's relative limit, if any, is non-negative.
\<close>

theorem empty_target_holds_position:
  assumes "wf_config cfg" and "obs_ok cfg (last_obs s)"
    and "\<forall>(k, v) \<in> set action. \<not> endswith k ''.pos''"
    and "i < length (joint_names cfg)"
    and "map_of (last_obs s) (pos_key (joint_names cfg ! i)) = Some p"
    and "\<forall>mrt r. max_relative_target cfg = Some mrt \<and> limit_for mrt (joint_names cfg ! i) = Some r
           \<longrightarrow> fle (Fin 0) r"
    and "bounds_in_effect cfg \<longrightarrow>
           fle (the (joint_min cfg) ! i) p \<and> fle p (the (joint_max cfg) ! i)"
  shows "\<exists>res. fst (send_action B cfg t1 t2 net s action) = Inr res \<and>
           map_of res (pos_key (joint_names cfg ! i)) = Some p \<and>
           PrintWarnEmptyGoal \<in> set (snd (snd (send_action B cfg t1 t2 net s action)))"
proof -
  have e: "goal_of_action B action = Inr []" by (rule goal_of_action_empty[OF assms(3)])
  have p: "prev (last_obs s) (joint_names cfg ! i) = p" using assms(5) by (simp add: prev_def)
  obtain res where res: "fst (send_action B cfg t1 t2 net s action) = Inr res"
    and look: "map_of res (pos_key (joint_names cfg ! i)) = Some (shaped_value cfg [] i p)"
    using send_action_shaped[OF assms(1,2,4) e, of t1 t2 net] unfolding p by blast
  from res look shaped_value_empty[OF assms(6,7)] send_action_warns[OF e] show ?thesis
    by auto
qed

theorem empty_target_holds_position_witness:
  "wf_config scenario_cfg \<and> obs_ok scenario_cfg (last_obs scenario_b_state) \<and>
   goal_of_action plain_builtins [] = Inr [] \<and>
   1 < length (joint_names scenario_cfg) \<and>
   map_of (last_obs scenario_b_state) (pos_key (joint_names scenario_cfg ! 1))
     = Some (Fin (- 2 / 10)) \<and>
   max_relative_target scenario_cfg = Some (RelFloat (Fin (1 / 10))) \<and>
   fle (Fin 0) (Fin (1 / 10)) \<and>
   \<not> bounds_in_effect scenario_cfg \<and>
   (\<exists>res. fst (send_action plain_builtins scenario_cfg 0 0 SendOk scenario_b_state []) = Inr res \<and>
       map_of res (pos_key (joint_names scenario_cfg ! 1)) = Some (Fin (- 2 / 10)) \<and>
       PrintWarnEmptyGoal \<in>
         set (snd (snd (send_action plain_builtins scenario_cfg 0 0 SendOk scenario_b_state []))))"
proof -
  have ok: "obs_ok scenario_cfg (last_obs scenario_b_state)"
    by (simp add: obs_ok_def scenario_cfg_def scenario_b_state_def pos_key_def
          map_of_eq_None_iff del: not_None_eq)
  have h: "\<forall>(k, v) \<in> set ([] :: json dict). \<not> endswith k ''.pos''"
    "1 < length (joint_names scenario_cfg)"
    "map_of (last_obs scenario_b_state) (pos_key (joint_names scenario_cfg ! 1))
       = Some (Fin (- 2 / 10))"
    "\<forall>mrt r. max_relative_target scenario_cfg = Some mrt \<and>
            limit_for mrt (joint_names scenario_cfg ! 1) = Some r \<longrightarrow> fle (Fin 0) r"
    by (auto simp: scenario_cfg_def scenario_b_state_def pos_key_def limit_for_def fle_def)
  have nb: "\<not> bounds_in_effect scenario_cfg"
    by (simp add: scenario_cfg_def bounds_in_effect_def truthy_def)
  then have b: "bounds_in_effect scenario_cfg \<longrightarrow>
      fle (the (joint_min scenario_cfg) ! 1) (Fin (- 2 / 10)) \<and>
      fle (Fin (- 2 / 10)) (the (joint_max scenario_cfg) ! 1)" by simp
  have e: "goal_of_action plain_builtins [] = Inr []"
    "max_relative_target scenario_cfg = Some (RelFloat (Fin (1 / 10)))"
    "fle (Fin 0) (Fin (1 / 10))"
    by (simp_all add: goal_of_action_def dict_of_def scenario_cfg_def fle_def)
  show ?thesis
    using empty_target_holds_position[OF wf_scenario ok h b,
            where ?t1.0 = 0 and ?t2.0 = 0 and net = SendOk and B = plain_builtins]
      wf_scenario ok h(2,3) nb e
    by blast
qed

theorem empty_target_counterexample:
  "fst (send_action plain_builtins range_cfg 0 0 SendOk (init range_cfg 0) [])
     = Inr [(''a.pos'', Fin 1)] \<and>
   map_of (last_obs (init range_cfg 0)) ''a.pos'' = Some (Fin 0) \<and> Fin 1 \<noteq> Fin 0"
  by (simp add: eval_defs range_cfg_def split: prod.splits)

subsection \<open>The absolute bounds (C8)\<close>

lemma absolute_bounds_after_any_relative_step:
  assumes wf: "wf_config cfg" and ok: "obs_ok cfg obs"
    and eff: "bounds_in_effect cfg"
    and mn: "joint_min cfg = Some los" and mx: "joint_max cfg = Some his"
    and i: "i < length (joint_names cfg)"
    and le: "fle (los ! i) (his ! i)"
    and num: "get_default g1 (joint_names cfg ! i) (prev obs (joint_names cfg ! i)) \<noteq> NaN"
  shows "\<exists>g2 tgt. absolute_step cfg obs g1 = Inr g2 \<and> target_of cfg obs g2 = Inr tgt \<and>
           fle (los ! i) (tgt ! i) \<and> fle (tgt ! i) (his ! i)"
proof -
  let ?names = "joint_names cfg"
  let ?cv = "\<lambda>i jn. py_min (py_max (get_default g1 jn (prev obs jn)) (los ! i)) (his ! i)"
  let ?g2 = "fold (\<lambda>(i, jn). AList.update jn (?cv i jn)) (enumerate 0 ?names) []"
  let ?tgt = "map (\<lambda>jn. get_default ?g2 jn (prev obs jn)) ?names"
  have len: "0 + length ?names \<le> length los" "0 + length ?names \<le> length his"
    using wf eff mn mx by (simp_all add: wf_config_def)
  have dist: "distinct ?names" using wf by (simp add: wf_config_def)
  have "clamp_loop los his g1 obs (enumerate 0 ?names) [] = Inr ?g2"
    by (rule clamp_loop_ok[OF obs_ok_prev[OF ok] len])
  then have abs: "absolute_step cfg obs g1 = Inr ?g2"
    using eff mn mx by (simp add: absolute_step_def bounds_in_effect_def)
  have tgt: "target_of cfg obs ?g2 = Inr ?tgt" by (rule target_of_ok[OF ok])
  have "?tgt ! i = ?cv i (?names ! i)"
    using map_of_enumerate_updates[OF dist i, of ?cv 0 "[]"] i
    by (simp add: get_default_def)
  then have "fle (los ! i) (?tgt ! i) \<and> fle (?tgt ! i) (his ! i)"
    using clamp_in_bounds[OF num le] by simp
  with abs tgt show ?thesis by blast
qed

lemma absolute_bounds_hold_for_numbers:
  assumes "wf_config cfg" and "obs_ok cfg (last_obs s)"
    and "bounds_in_effect cfg"
    and "joint_min cfg = Some los" and "joint_max cfg = Some his"
    and "i < length (joint_names cfg)"
    and "fle (los ! i) (his ! i)"
    and "goal_of_action B action = Inr goal"
    and "rel_value cfg goal (joint_names cfg ! i) (prev (last_obs s) (joint_names cfg ! i)) \<noteq> NaN"
  shows "\<exists>res x. fst (send_action B cfg t1 t2 net s action) = Inr res \<and>
           map_of res (pos_key (joint_names cfg ! i)) = Some x \<and>
           fle (los ! i) x \<and> fle x (his ! i)"
proof -
  obtain res where res: "fst (send_action B cfg t1 t2 net s action) = Inr res"
    and look: "map_of res (pos_key (joint_names cfg ! i)) =
             Some (shaped_value cfg goal i (prev (last_obs s) (joint_names cfg ! i)))"
    using send_action_shaped[OF assms(1,2,6,8)] by blast
  let ?x = "shaped_value cfg goal i (prev (last_obs s) (joint_names cfg ! i))"
  have "fle (los ! i) ?x \<and> fle ?x (his ! i)"
    using assms(3,4,5) clamp_in_bounds[OF assms(9,7)]
    by (simp add: shaped_value_def Let_def)
  with res look show ?thesis by blast
qed

text \<open>
  Claim C8 fails on a target that is not a number.  With one joint bounded by [1, 2] and
  no relative limit, the action a = NaN passes the clamp of line 109 unchanged:
  \<open>max(nan, 1)\<close> is \<open>nan\<close> and \<open>min(nan, 2)\<close> is \<open>nan\<close>.  NaN is sent, stored in the
  cache and returned, and it is not within the bounds.
\<close>

theorem absolute_clamp_passes_nan:
  "send_action plain_builtins range_cfg 7 7 SendOk (connected range_cfg) [(''a.pos'', JFloat NaN)]
     = (Inr [(''a.pos'', NaN)],
        \<lparr> ws = Some 1, seq = 1, last_send_log = 7,
          last_obs = [(''a.pos'', NaN), (''timestamp'', Fin 7)] \<rparr>,
        [PrintCmd [NaN],
         Sending \<lparr> cmd_seq = 1, cmd_names = [''a''], cmd_target = [NaN], cmd_timestamp = 7 \<rparr>]) \<and>
   joint_min range_cfg = Some [Fin 1] \<and> joint_max range_cfg = Some [Fin 2] \<and>
   \<not> fle (Fin 1) NaN \<and> \<not> fle NaN (Fin 2)"
  by (simp add: eval_defs connected_def range_cfg_def fle_def split: prod.splits)

subsection \<open>Receiving: the read and the merge of a state frame\<close>

lemmas obs_defs =
  get_observation_def async_try_recv_def run_def wait_for_def merge_message_def handle_state_def
  frame_time_def name_to_val_def merge_items.simps
  py_iter_def py_dict_def hashable_def py_eq_def num_of_def key_str_def py_float_def
  pos_key_def init_def dict_of_def connected_def Let_def

lemma get_observation_reads_nothing:
  "get_observation B cfg now net s = (Inr (last_obs s), s)"
  by (simp add: get_observation_def run_def wait_for_def merge_message_def)

lemma async_try_recv_reads_nothing:
  "async_try_recv net s = (Inr None, s)"
  by (simp add: async_try_recv_def wait_for_def split: option.splits)

lemma get_observation_keeps_obs_ok:
  assumes "obs_ok cfg (last_obs s)"
  shows "obs_ok cfg (last_obs (snd (get_observation B cfg now net s)))"
  using assms by (simp add: get_observation_reads_nothing)

lemma merge_message_frame:
  "merge_message B cfg now (Some (Some data)) s =
     s\<lparr>last_obs := snd (handle_state B cfg now data (last_obs s))\<rparr>"
  by (simp add: merge_message_def)

lemma handle_state_merged:
  assumes "map_of kvs ''type'' = Some (JStr ''state'')"
    and "name_to_val cfg kvs = Inr items"
    and "merge_items B items obs = (None, obs1)"
    and "py_float B (frame_time kvs now) = Inr t"
  shows "handle_state B cfg now (JObj kvs) obs = (None, AList.update ''timestamp'' t obs1)"
  using assms by (simp add: handle_state_def)


lemma py_eq_JStr: "py_eq k (JStr n) \<longleftrightarrow> k = JStr n"
  by (cases k) (simp_all add: py_eq_def num_of_def)

lemma dict_put_fresh:
  "JStr n \<notin> fst ` set d \<Longrightarrow> dict_put (JStr n) v d = d @ [(JStr n, v)]"
  by (induction d) (auto simp: py_eq_JStr)

lemma fold_dict_put_strs:
  assumes "distinct (map fst (as @ zs))"
  shows "fold (\<lambda>(k, v). dict_put k v) (map (\<lambda>(n, v). (JStr n, v)) zs)
           (map (\<lambda>(n, v). (JStr n, v)) as) = map (\<lambda>(n, v). (JStr n, v)) (as @ zs)"
  using assms
proof (induction zs arbitrary: as)
  case Nil
  then show ?case by simp
next
  case (Cons z zs)
  obtain n v where z: "z = (n, v)" by (cases z)
  have fresh: "JStr n \<notin> fst ` set (map (\<lambda>(n, v). (JStr n, v)) as)"
    using Cons.prems z by (auto simp: image_iff)
  have "distinct (map fst ((as @ [z]) @ zs))" using Cons.prems by simp
  from Cons.IH[OF this] show ?case
    by (simp add: z dict_put_fresh[OF fresh])
qed

lemma py_dict_strs:
  assumes "distinct (map fst zs)"
  shows "py_dict (map (\<lambda>(n, v). (JStr n, v)) zs) = Inr (map (\<lambda>(n, v). (JStr n, v)) zs)"
proof -
  have "list_all (\<lambda>(k, v). hashable k) (map (\<lambda>(n, v). (JStr n, v)) zs)"
    by (induction zs) (auto simp: hashable_def)
  then show ?thesis
    using fold_dict_put_strs[of "[]" zs] assms by (simp add: py_dict_def)
qed

lemma zip_JStr: "zip (map JStr ns) vl = map (\<lambda>(n, v). (JStr n, v)) (zip ns vl)"
  by (simp add: zip_map1)

lemma distinct_zip_fst: "distinct ns \<Longrightarrow> distinct (map fst (zip ns vl))"
  by (induction ns arbitrary: vl) (auto simp: zip_Cons1 split: list.splits dest: set_zip_leftD)

lemma name_to_val_positional:
  assumes "map_of kvs ''names'' = None" and "map_of kvs ''joint_pos'' = Some (JArr vl)"
    and "distinct (joint_names cfg)"
  shows "name_to_val cfg kvs = Inr (map (\<lambda>(n, v). (JStr n, v)) (zip (joint_names cfg) vl))"
  using assms by (simp add: name_to_val_def zip_JStr py_dict_strs distinct_zip_fst)

lemma name_to_val_named:
  assumes "map_of kvs ''names'' = Some (JArr (map JStr ns))"
    and "map_of kvs ''joint_pos'' = Some (JArr vl)" and "distinct ns"
  shows "name_to_val cfg kvs = Inr (map (\<lambda>(n, v). (JStr n, v)) (zip ns vl))"
  using assms by (simp add: name_to_val_def py_iter_def zip_JStr py_dict_strs distinct_zip_fst)



lemma merge_items_strs:
  assumes "distinct (map fst zs)"
    and "\<forall>(n, v) \<in> set zs. py_float B v = Inr (f v)"
  shows "\<exists>obs1. merge_items B (map (\<lambda>(n, v). (JStr n, v)) zs) obs = (None, obs1) \<and>
           (\<forall>(n, v) \<in> set zs. map_of obs (pos_key n) \<noteq> None \<longrightarrow>
                                map_of obs1 (pos_key n) = Some (f v)) \<and>
           (\<forall>k. k \<notin> pos_key ` fst ` set zs \<longrightarrow> map_of obs1 k = map_of obs k)"
  using assms
proof (induction zs arbitrary: obs)
  case Nil
  then show ?case by simp
next
  case (Cons z zs)
  obtain n v where z: "z = (n, v)" by (cases z)
  have fl: "py_float B v = Inr (f v)" using Cons.prems(2) z by simp
  have dist: "distinct (map fst zs)" and fresh: "n \<notin> fst ` set zs"
    using Cons.prems(1) z by auto
  have conv: "\<forall>(n, v) \<in> set zs. py_float B v = Inr (f v)" using Cons.prems(2) by simp
  let ?obs' = "if map_of obs (pos_key n) \<noteq> None then AList.update (pos_key n) (f v) obs else obs"
  have step: "merge_items B (map (\<lambda>(n, v). (JStr n, v)) (z # zs)) obs =
              merge_items B (map (\<lambda>(n, v). (JStr n, v)) zs) ?obs'"
    by (simp add: z key_str_def fl)
  obtain obs1 where m: "merge_items B (map (\<lambda>(n, v). (JStr n, v)) zs) ?obs' = (None, obs1)"
    and known: "\<forall>(n, v) \<in> set zs. map_of ?obs' (pos_key n) \<noteq> None \<longrightarrow>
                                map_of obs1 (pos_key n) = Some (f v)"
    and other: "\<forall>k. k \<notin> pos_key ` fst ` set zs \<longrightarrow> map_of obs1 k = map_of ?obs' k"
    using Cons.IH[OF dist conv, of ?obs'] by blast
  have keep: "map_of obs k \<noteq> None \<Longrightarrow> map_of ?obs' k \<noteq> None" for k
    by (simp add: update_conv')
  have nkey: "pos_key n \<notin> pos_key ` fst ` set zs"
    using fresh by (force simp: pos_key_inj image_iff)
  have a: "\<forall>(n', v') \<in> set (z # zs). map_of obs (pos_key n') \<noteq> None \<longrightarrow>
                                map_of obs1 (pos_key n') = Some (f v')"
  proof -
    have "map_of obs (pos_key n) \<noteq> None \<longrightarrow> map_of obs1 (pos_key n) = Some (f v)"
      using other nkey by (simp add: update_conv')
    moreover have "\<forall>(n', v') \<in> set zs. map_of obs (pos_key n') \<noteq> None \<longrightarrow>
                                map_of obs1 (pos_key n') = Some (f v')"
      using known keep by blast
    ultimately show ?thesis by (simp add: z)
  qed
  have b: "\<forall>k. k \<notin> pos_key ` fst ` set (z # zs) \<longrightarrow> map_of obs1 k = map_of obs k"
    using other by (auto simp: z update_conv')
  from step m a b show ?case by simp
qed

lemma merge_items_keeps:
  assumes "distinct (map fst obs)"
  shows "distinct (map fst (snd (merge_items B items obs))) \<and>
         (\<forall>k. map_of obs k \<noteq> None \<longrightarrow> map_of (snd (merge_items B items obs)) k \<noteq> None)"
  using assms
proof (induction items arbitrary: obs)
  case Nil
  then show ?case by simp
next
  case (Cons it items)
  obtain jn v where it: "it = (jn, v)" by (cases it)
  show ?case
  proof (cases "map_of obs (pos_key (key_str B jn)) \<noteq> None \<and> (\<exists>x. py_float B v = Inr x)")
    case True
    then obtain x where x: "py_float B v = Inr x" by blast
    let ?obs' = "AList.update (pos_key (key_str B jn)) x obs"
    have d: "distinct (map fst ?obs')" using Cons.prems by (rule distinct_update)
    have eq: "merge_items B (it # items) obs = merge_items B items ?obs'"
      using True x by (simp add: it)
    have "map_of obs k \<noteq> None \<longrightarrow> map_of ?obs' k \<noteq> None" for k
      by (simp add: update_conv')
    with Cons.IH[OF d] show ?thesis unfolding eq by blast
  next
    case False
    show ?thesis
    proof (cases "map_of obs (pos_key (key_str B jn)) = None")
      case True
      then have eq: "merge_items B (it # items) obs = merge_items B items obs"
        by (simp add: it)
      show ?thesis unfolding eq by (rule Cons.IH[OF Cons.prems])
    next
      case known: False
      with False obtain e where "py_float B v = Inl e"
        by (cases "py_float B v") auto
      with known have eq: "snd (merge_items B (it # items) obs) = obs"
        by (simp add: it)
      show ?thesis unfolding eq using Cons.prems by blast
    qed
  qed
qed

lemma state_frame_merge:
  assumes ty: "map_of kvs ''type'' = Some (JStr ''state'')"
    and ntv: "name_to_val cfg kvs = Inr (map (\<lambda>(n, v). (JStr n, v)) (zip ns vl))"
    and dist: "distinct ns"
    and conv: "map_exn (py_float B) vl = Inr vs"
    and ts: "py_float B (frame_time kvs now) = Inr t"
  shows "\<exists>obs'. merge_message B cfg now (Some (Some (JObj kvs))) s = s\<lparr>last_obs := obs'\<rparr> \<and>
           (\<forall>i. i < length ns \<and> i < length vl \<and> map_of (last_obs s) (pos_key (ns ! i)) \<noteq> None
                \<longrightarrow> map_of obs' (pos_key (ns ! i)) = Some (vs ! i)) \<and>
           (\<forall>k. k \<notin> pos_key ` set (take (length vl) ns) \<and> k \<noteq> ''timestamp''
                \<longrightarrow> map_of obs' k = map_of (last_obs s) k) \<and>
           map_of obs' ''timestamp'' = Some t"
proof -
  let ?zs = "zip ns vl"
  let ?f = "\<lambda>v. projr (py_float B v)"
  have len: "length vs = length vl" and nth: "\<And>i. i < length vl \<Longrightarrow> py_float B (vl ! i) = Inr (vs ! i)"
    using map_exn_nth[OF conv] by auto
  have fl: "\<forall>(n, v) \<in> set ?zs. py_float B v = Inr (?f v)"
  proof (clarify)
    fix n v assume "(n, v) \<in> set ?zs"
    then have "v \<in> set vl" by (rule set_zip_rightD)
    then obtain i where "i < length vl" "vl ! i = v" by (auto simp: in_set_conv_nth)
    then show "py_float B v = Inr (?f v)" using nth[of i] by simp
  qed
  obtain obs1 where m: "merge_items B (map (\<lambda>(n, v). (JStr n, v)) ?zs) (last_obs s) = (None, obs1)"
    and known: "\<forall>(n, v) \<in> set ?zs. map_of (last_obs s) (pos_key n) \<noteq> None \<longrightarrow>
                                map_of obs1 (pos_key n) = Some (?f v)"
    and other: "\<forall>k. k \<notin> pos_key ` fst ` set ?zs \<longrightarrow> map_of obs1 k = map_of (last_obs s) k"
    using merge_items_strs[OF distinct_zip_fst[OF dist] fl, of "last_obs s"] by blast
  let ?obs' = "AList.update ''timestamp'' t obs1"
  have hs: "handle_state B cfg now (JObj kvs) (last_obs s) = (None, ?obs')"
    by (rule handle_state_merged[OF ty ntv m ts])
  have g: "merge_message B cfg now (Some (Some (JObj kvs))) s = s\<lparr>last_obs := ?obs'\<rparr>"
    by (simp add: merge_message_frame hs)
  have a: "map_of ?obs' (pos_key (ns ! i)) = Some (vs ! i)"
    if "i < length ns" "i < length vl" "map_of (last_obs s) (pos_key (ns ! i)) \<noteq> None" for i
  proof -
    have "(ns ! i, vl ! i) \<in> set ?zs" using that(1,2) by (auto simp: in_set_zip)
    then have "map_of obs1 (pos_key (ns ! i)) = Some (?f (vl ! i))"
      using known that(3) by blast
    then show ?thesis using nth[OF that(2)] by (simp add: update_conv' timestamp_not_pos_key)
  qed
  have "map fst ?zs = take (length vl) ns"
    by (simp add: map_fst_zip_take min_def)
  then have "set (map fst ?zs) = set (take (length vl) ns)" by simp
  then have keys: "fst ` set ?zs = set (take (length vl) ns)" by (simp only: set_map)
  have b: "map_of ?obs' k = map_of (last_obs s) k"
    if "k \<notin> pos_key ` set (take (length vl) ns)" "k \<noteq> ''timestamp''" for k
    using other that by (simp add: update_conv' keys)
  have c: "map_of ?obs' ''timestamp'' = Some t" by (simp add: update_conv')
  from g a b c show ?thesis by blast
qed

lemma merge_message_positional:
  assumes "map_of kvs ''type'' = Some (JStr ''state'')"
    and "map_of kvs ''names'' = None"
    and "map_of kvs ''joint_pos'' = Some (JArr vl)"
    and "length vl = length (joint_names cfg)"
    and "map_exn (py_float B) vl = Inr vs"
    and "distinct (joint_names cfg)"
    and "obs_ok cfg (last_obs s)"
    and "py_float B (frame_time kvs now) = Inr t"
  shows "\<exists>obs'. merge_message B cfg now (Some (Some (JObj kvs))) s = s\<lparr>last_obs := obs'\<rparr> \<and>
           (\<forall>i < length (joint_names cfg).
              map_of obs' (pos_key (joint_names cfg ! i)) = Some (vs ! i)) \<and>
           map_of obs' ''timestamp'' = Some t"
proof -
  have ntv: "name_to_val cfg kvs =
               Inr (map (\<lambda>(n, v). (JStr n, v)) (zip (joint_names cfg) vl))"
    by (rule name_to_val_positional[OF assms(2,3,6)])
  obtain obs' where g: "merge_message B cfg now (Some (Some (JObj kvs))) s = s\<lparr>last_obs := obs'\<rparr>"
    and known: "\<forall>i. i < length (joint_names cfg) \<and> i < length vl \<and>
                   map_of (last_obs s) (pos_key (joint_names cfg ! i)) \<noteq> None
                \<longrightarrow> map_of obs' (pos_key (joint_names cfg ! i)) = Some (vs ! i)"
    and ts: "map_of obs' ''timestamp'' = Some t"
    using state_frame_merge[OF assms(1) ntv assms(6,5,8)] by blast
  have "map_of obs' (pos_key (joint_names cfg ! i)) = Some (vs ! i)"
    if "i < length (joint_names cfg)" for i
  proof -
    have "map_of (last_obs s) (pos_key (joint_names cfg ! i)) \<noteq> None"
      using that by (simp add: obs_ok_prev[OF assms(7)])
    then show ?thesis using known that assms(4) by simp
  qed
  then have all: "\<forall>i < length (joint_names cfg).
              map_of obs' (pos_key (joint_names cfg ! i)) = Some (vs ! i)" by simp
  show ?thesis
    by (rule exI[of _ obs']) (intro conjI g all ts)
qed

lemma handle_state_keeps_obs_ok:
  assumes "obs_ok cfg obs"
  shows "obs_ok cfg (snd (handle_state B cfg now data obs))"
proof -
  have d: "distinct (map fst obs)" using assms by (simp add: obs_ok_def)
  have ok_upd: "obs_ok cfg (AList.update k x obs1)"
    if "distinct (map fst obs1)" "\<forall>k. map_of obs k \<noteq> None \<longrightarrow> map_of obs1 k \<noteq> None"
    for obs1 k x
  proof -
    have "map_of (AList.update k x obs1) (pos_key jn) \<noteq> None"
      if "jn \<in> set (joint_names cfg)" for jn
    proof -
      have "map_of obs (pos_key jn) \<noteq> None" using assms that unfolding obs_ok_def by blast
      then have "map_of obs1 (pos_key jn) \<noteq> None" using \<open>\<forall>k. _ k\<close> by blast
      then show ?thesis by (simp add: update_conv' del: not_None_eq)
    qed
    then show ?thesis using distinct_update[OF that(1)] unfolding obs_ok_def by blast
  qed
  have ok_same: "obs_ok cfg obs1"
    if "distinct (map fst obs1)" "\<forall>k. map_of obs k \<noteq> None \<longrightarrow> map_of obs1 k \<noteq> None"
    for obs1
    using that assms unfolding obs_ok_def by blast
  show ?thesis
  proof (cases data)
    case (JObj kvs)
    show ?thesis
    proof (cases "map_of kvs ''type'' = Some (JStr ''state'')")
      case False
      then show ?thesis using assms by (simp add: handle_state_def JObj)
    next
      case True
      show ?thesis
      proof (cases "name_to_val cfg kvs")
        case (Inl e)
        then show ?thesis using assms True by (simp add: handle_state_def JObj)
      next
        case (Inr items)
        obtain r obs1 where m: "merge_items B items obs = (r, obs1)"
          by (cases "merge_items B items obs")
        have k: "distinct (map fst obs1)"
          "\<forall>k. map_of obs k \<noteq> None \<longrightarrow> map_of obs1 k \<noteq> None"
          using merge_items_keeps[OF d, of B items] unfolding m snd_conv by blast+
        show ?thesis
          using ok_upd[OF k] ok_same[OF k] True
          by (simp add: handle_state_def JObj Inr m split: option.splits sum.splits)
      qed
    qed
  qed (use assms in \<open>simp_all add: handle_state_def\<close>)
qed

lemma merge_message_keeps_obs_ok:
  assumes "obs_ok cfg (last_obs s)"
  shows "obs_ok cfg (last_obs (merge_message B cfg now msg s))"
  using assms handle_state_keeps_obs_ok[of cfg "last_obs s" B now]
  by (auto simp: merge_message_def split: option.splits)

subsection \<open>Names and positions of different lengths (C2)\<close>

text \<open>
  Claim C2.  While a state frame whose \<open>names\<close> and \<open>joint_pos\<close> differ in length is
  pending on the socket, \<open>get_observation\<close> returns the cache without raising and leaves
  the follower, hence every cached joint position, as it was.
\<close>

theorem mismatched_state_frame_changes_nothing:
  assumes "map_of kvs ''type'' = Some (JStr ''state'')"
    and "map_of kvs ''names'' = Some ns" and "map_of kvs ''joint_pos'' = Some jp"
    and "py_len ns = Inr n" and "py_len jp = Inr m" and "n \<noteq> m"
  shows "get_observation B cfg now (RecvText (Some (JObj kvs))) s = (Inr (last_obs s), s)"
  by (rule get_observation_reads_nothing)

theorem mismatched_state_frame_changes_nothing_witness:
  "py_len (JArr [JStr ''a'', JStr ''b'']) = Inr 2 \<and> py_len (JArr [JFloat (Fin (7 / 10))]) = Inr 1 \<and>
   (2::nat) \<noteq> 1 \<and>
   get_observation plain_builtins scenario_cfg 7
     (RecvText (Some (JObj [(''type'', JStr ''state''),
                            (''names'', JArr [JStr ''a'', JStr ''b'']),
                            (''joint_pos'', JArr [JFloat (Fin (7 / 10))])])))
     (connected scenario_cfg)
   = (Inr (last_obs (connected scenario_cfg)), connected scenario_cfg) \<and>
   last_obs (connected scenario_cfg)
   = [(''a.pos'', Fin 0), (''b.pos'', Fin 0), (''timestamp'', Fin 0)]"
proof -
  let ?kvs = "[(''type'', JStr ''state''), (''names'', JArr [JStr ''a'', JStr ''b'']),
               (''joint_pos'', JArr [JFloat (Fin (7 / 10))])]"
  have h: "map_of ?kvs ''type'' = Some (JStr ''state'')"
    "map_of ?kvs ''names'' = Some (JArr [JStr ''a'', JStr ''b''])"
    "map_of ?kvs ''joint_pos'' = Some (JArr [JFloat (Fin (7 / 10))])"
    "py_len (JArr [JStr ''a'', JStr ''b'']) = Inr 2"
    "py_len (JArr [JFloat (Fin (7 / 10))]) = Inr 1" "(2::nat) \<noteq> 1"
    by (simp_all add: py_len_def)
  have c: "last_obs (connected scenario_cfg)
             = [(''a.pos'', Fin 0), (''b.pos'', Fin 0), (''timestamp'', Fin 0)]"
    by (simp add: connected_def init_def scenario_cfg_def dict_of_def pos_key_def)
  show ?thesis
    using mismatched_state_frame_changes_nothing[OF h, where B = plain_builtins
            and cfg = scenario_cfg and now = 7 and s = "connected scenario_cfg"] h(4,5,6) c
    by simp
qed

subsection \<open>A frame without names (C7)\<close>

text \<open>
  Claim C7 fails on Scenario C.  With joints a, b at 0.0 and the frame
  \<open>{"type": "state", "joint_pos": [0.2, 0.3]}\<close> pending on the socket,
  \<open>get_observation\<close> returns the cache as it was and leaves it so: the receive is made
  under a timeout of zero, which cancels it before it starts (lines 67 and 175).  The merge
  of lines 68-84 would have set a = 0.2, b = 0.3 and the timestamp, had it been given the
  frame.
\<close>

theorem pending_state_frame_is_not_read:
  "get_observation plain_builtins scenario_cfg 7
     (RecvText (Some (JObj [(''type'', JStr ''state''),
                            (''joint_pos'', JArr [JFloat (Fin (2 / 10)), JFloat (Fin (3 / 10))])])))
     (connected scenario_cfg)
   = (Inr [(''a.pos'', Fin 0), (''b.pos'', Fin 0), (''timestamp'', Fin 0)],
      connected scenario_cfg) \<and>
   last_obs (connected scenario_cfg)
   = [(''a.pos'', Fin 0), (''b.pos'', Fin 0), (''timestamp'', Fin 0)] \<and>
   ws (connected scenario_cfg) = Some 1 \<and>
   last_obs (merge_message plain_builtins scenario_cfg 7
     (Some (Some (JObj [(''type'', JStr ''state''),
                        (''joint_pos'', JArr [JFloat (Fin (2 / 10)), JFloat (Fin (3 / 10))])])))
     (connected scenario_cfg))
   = [(''a.pos'', Fin (2 / 10)), (''b.pos'', Fin (3 / 10)), (''timestamp'', Fin 7)]"
  by (simp add: obs_defs scenario_cfg_def)

subsection \<open>A frame that names no cached joint (C10)\<close>




subsection \<open>The endpoint's ingest loop (C3, C9)\<close>

lemma rx_frame_rejects:
  assumes "map_of d ''type'' \<noteq> Some (JStr ''cmd'') \<or>
           map_of d ''mode'' \<noteq> Some (JStr ''joint_position'') \<or>
           (py_len (get_default d ''target'' (JArr [])) = Inr n \<and> n \<noteq> length JOINT_NAMES)"
  shows "fst (rx_frame (Some (JObj d)) q) = None \<and> fst (snd (rx_frame (Some (JObj d)) q)) = q \<and>
         snd (snd (rx_frame (Some (JObj d)) q)) \<in> {[NonCmd], [UnsupportedMode], [BadTargetLen n]}"
  using assms
  by (auto simp: rx_frame_def Let_def py_len_def split: json.splits option.splits)

lemma rx_frame_applies:
  assumes "map_of g ''type'' = Some (JStr ''cmd'')"
    and "map_of g ''mode'' = Some (JStr ''joint_position'')"
    and "map_of g ''target'' = Some (JArr tgt)"
    and "length tgt = length JOINT_NAMES"
  shows "fst (snd (rx_frame (Some (JObj g)) q)) = tgt \<and>
         (first_error (take 6 tgt) = None \<longrightarrow> fst (rx_frame (Some (JObj g)) q) = None)"
  using assms by (auto simp: rx_frame_def Let_def get_default_def split: option.splits)

lemma rejected_frame_then_command:
  assumes "map_of d ''type'' \<noteq> Some (JStr ''cmd'') \<or>
           map_of d ''mode'' \<noteq> Some (JStr ''joint_position'') \<or>
           (py_len (get_default d ''target'' (JArr [])) = Inr n \<and> n \<noteq> length JOINT_NAMES)"
    and "map_of g ''type'' = Some (JStr ''cmd'')"
    and "map_of g ''mode'' = Some (JStr ''joint_position'')"
    and "map_of g ''target'' = Some (JArr tgt)"
    and "length tgt = length JOINT_NAMES"
  shows "fst (snd (rx_loop [Some (JObj d), Some (JObj g)] q)) = tgt \<and>
         (first_error (take 6 tgt) = None \<longrightarrow>
            fst (rx_loop [Some (JObj d), Some (JObj g)] q) = None)"
proof -
  note r = rx_frame_rejects[OF assms(1), of q]
  note a = rx_frame_applies[OF assms(2-5), of q]
  obtain e1 q1 o1 where f1: "rx_frame (Some (JObj d)) q = (e1, q1, o1)" by (cases "rx_frame (Some (JObj d)) q")
  obtain e2 q2 o2 where f2: "rx_frame (Some (JObj g)) q = (e2, q2, o2)" by (cases "rx_frame (Some (JObj g)) q")
  have 1: "e1 = None" "q1 = q" using r f1 by simp_all
  have 2: "q2 = tgt" "first_error (take 6 tgt) = None \<longrightarrow> e2 = None" using a f2 by simp_all
  have "fst (snd (rx_loop [Some (JObj d), Some (JObj g)] q)) = tgt"
    using f1 f2 1 2 by (cases e2) simp_all
  moreover have "first_error (take 6 tgt) = None \<longrightarrow>
            fst (rx_loop [Some (JObj d), Some (JObj g)] q) = None"
    using f1 f2 1 2 by (cases e2) simp_all
  ultimately show ?thesis by simp
qed

lemma rx_frame_target_without_length:
  assumes "map_of d ''type'' = Some (JStr ''cmd'')"
    and "map_of d ''mode'' = Some (JStr ''joint_position'')"
    and "map_of d ''target'' = Some t" and "py_len t = Inl e"
  shows "rx_frame (Some (JObj d)) q = (Some TypeError, q, [])"
  using assms
  by (auto simp: rx_frame_def Let_def get_default_def py_len_def split: json.splits)

lemma rx_frame_not_an_object:
  assumes "\<forall>d. v \<noteq> JObj d"
  shows "rx_frame (Some v) q = (Some AttributeError, q, [])"
  using assms by (cases v) (simp_all add: rx_frame_def)

lemma rx_loop_stops_at_exception:
  assumes "rx_frame msg q = (Some e, q', out)"
  shows "rx_loop (msg # rest) q = (Some e, q', out)"
  using assms by simp

text \<open>
  Claim C3 fails on a command whose target has no length.  The frame
  \<open>{"type": "cmd", "mode": "joint_position", "target": null}\<close> is not rejected: the
  rejection message of line 30 takes \<open>len(tgt)\<close>, which raises \<open>TypeError\<close>, the loop
  ends, and the well-formed command that follows is not applied.  The same command after a
  target list of a wrong length is applied.
\<close>

theorem null_target_ends_ingest_loop:
  "rx_loop [Some (JObj [(''type'', JStr ''cmd''), (''mode'', JStr ''joint_position''),
                        (''target'', JNull)]),
            Some good_cmd]
           (replicate 6 (JFloat (Fin 0)))
     = (Some TypeError, replicate 6 (JFloat (Fin 0)), []) \<and>
   rx_loop [Some (JObj [(''type'', JStr ''cmd''), (''mode'', JStr ''joint_position''),
                        (''target'', JArr [JFloat (Fin 1)])]),
            Some good_cmd]
           (replicate 6 (JFloat (Fin 0)))
     = (None,
        [JFloat (Fin 1), JFloat (Fin 2), JFloat (Fin 3), JFloat (Fin 4), JFloat (Fin 5),
         JFloat (Fin 6)],
        [BadTargetLen 1,
         CmdApplied [JFloat (Fin 1), JFloat (Fin 2), JFloat (Fin 3), JFloat (Fin 4),
                     JFloat (Fin 5), JFloat (Fin 6)]])"
  by (simp add: rx_frame_def good_cmd_def JOINT_NAMES_def get_default_def format_error_def
        py_len_def)

text \<open>
  Claim C9.  A command of type "cmd" and mode "joint_position" whose target has the
  canonical length makes \<open>q\<close> exactly the target, whatever the \<open>names\<close> field holds and
  also when it is absent.
\<close>

theorem command_target_applied_positionally:
  assumes "map_of d ''type'' = Some (JStr ''cmd'')"
    and "map_of d ''mode'' = Some (JStr ''joint_position'')"
    and "map_of d ''target'' = Some (JArr tgt)"
    and "length tgt = length JOINT_NAMES"
  shows "fst (snd (rx_frame (Some (JObj d)) q)) = tgt \<and>
         fst (snd (rx_frame (Some (JObj (AList.update ''names'' nm d))) q)) = tgt \<and>
         fst (snd (rx_frame (Some (JObj (AList.delete ''names'' d))) q)) = tgt"
proof -
  have u: "map_of (AList.update ''names'' nm d) ''type'' = Some (JStr ''cmd'')"
    "map_of (AList.update ''names'' nm d) ''mode'' = Some (JStr ''joint_position'')"
    "map_of (AList.update ''names'' nm d) ''target'' = Some (JArr tgt)"
    using assms(1-3) by (simp_all add: update_conv')
  have dl: "map_of (AList.delete ''names'' d) ''type'' = Some (JStr ''cmd'')"
    "map_of (AList.delete ''names'' d) ''mode'' = Some (JStr ''joint_position'')"
    "map_of (AList.delete ''names'' d) ''target'' = Some (JArr tgt)"
    using assms(1-3) by (simp_all add: delete_conv')
  show ?thesis
    using rx_frame_applies[OF assms, of q] rx_frame_applies[OF u assms(4), of q]
      rx_frame_applies[OF dl assms(4), of q]
    by simp
qed

theorem command_target_applied_positionally_witness:
  "length [JFloat (Fin 6), JFloat (Fin 5), JFloat (Fin 4), JFloat (Fin 3), JFloat (Fin 2), JFloat (Fin 1)] = length JOINT_NAMES \<and>
   fst (snd (rx_frame (Some (JObj [(''type'', JStr ''cmd''), (''mode'', JStr ''joint_position''),
        (''target'', JArr [JFloat (Fin 6), JFloat (Fin 5), JFloat (Fin 4), JFloat (Fin 3), JFloat (Fin 2), JFloat (Fin 1)])])) (replicate 6 (JFloat (Fin 0)))))
     = [JFloat (Fin 6), JFloat (Fin 5), JFloat (Fin 4), JFloat (Fin 3), JFloat (Fin 2), JFloat (Fin 1)] \<and>
   fst (snd (rx_frame (Some (JObj (AList.update ''names'' (JArr (map JStr (rev JOINT_NAMES)))
        [(''type'', JStr ''cmd''), (''mode'', JStr ''joint_position''),
         (''target'', JArr [JFloat (Fin 6), JFloat (Fin 5), JFloat (Fin 4), JFloat (Fin 3), JFloat (Fin 2), JFloat (Fin 1)])]))) (replicate 6 (JFloat (Fin 0)))))
     = [JFloat (Fin 6), JFloat (Fin 5), JFloat (Fin 4), JFloat (Fin 3), JFloat (Fin 2), JFloat (Fin 1)]"
proof -
  let ?tgt = "[JFloat (Fin 6), JFloat (Fin 5), JFloat (Fin 4), JFloat (Fin 3), JFloat (Fin 2), JFloat (Fin 1)]"
  let ?d = "[(''type'', JStr ''cmd''), (''mode'', JStr ''joint_position''), (''target'', JArr ?tgt)]"
  have h: "map_of ?d ''type'' = Some (JStr ''cmd'')"
    "map_of ?d ''mode'' = Some (JStr ''joint_position'')"
    "map_of ?d ''target'' = Some (JArr ?tgt)"
    "length ?tgt = length JOINT_NAMES"
    by (simp_all add: JOINT_NAMES_def)
  show ?thesis
    using command_target_applied_positionally[OF h,
            where nm = "JArr (map JStr (rev JOINT_NAMES))" and q = "replicate 6 (JFloat (Fin 0))"] h(4)
    by simp
qed

subsection \<open>Connecting (C4)\<close>

lemma connect_loop_refused:
  assumes "\<forall>a \<in> set as. \<exists>e. net a = Inl e \<and> e \<noteq> TimeoutError"
  shows "fst (connect_loop net as s) = s \<and> attempts (snd (connect_loop net as s)) = length as"
  using assms
  by (induction as) (auto simp: async_connect_def run_def wait_for_def attempts_def split: prod.splits)

lemma connect_refused_ten_attempts:
  assumes "ws s = None" and "\<forall>a < 10. \<exists>e. net a = Inl e \<and> e \<noteq> TimeoutError"
  shows "fst (connect net s) = Inl (RuntimeError ''websim follower: cannot connect to simulator'')
         \<and> fst (snd (connect net s)) = s \<and> attempts (snd (snd (connect net s))) = 10"
proof -
  have "\<forall>a \<in> set [0..<10]. \<exists>e. net a = Inl e \<and> e \<noteq> TimeoutError" using assms(2) by simp
  from connect_loop_refused[OF this, of s]
  obtain fx where "connect_loop net [0..<10] s = (s, fx)" "attempts fx = 10"
    by (cases "connect_loop net [0..<10] s") auto
  then show ?thesis
    using assms(1) by (simp add: connect_def is_connected_def)
qed

lemma connect_first_success:
  assumes "ws s = None" and "net 0 = Inr h"
  shows "connect net s = (Inr (), s\<lparr>ws := Some h\<rparr>, [Connecting 2, PrintConnected])"
  using assms by (simp add: connect_def is_connected_def async_connect_def run_def wait_for_def upt_rec)

lemma connect_timeout_stops:
  assumes "ws s = None" and "net 0 = Inl TimeoutError"
  shows "connect net s = (Inl (RuntimeError ''websim follower: cannot connect to simulator''), s,
                          [Connecting 2, PrintConnected])"
  using assms by (simp add: connect_def is_connected_def async_connect_def run_def wait_for_def upt_rec)

text \<open>
  Claim C4, evaluated on the code: when the first attempt reaches its 2 s bound, \<open>_run\<close>
  returns \<open>None\<close> instead of raising, so \<open>connect\<close> prints "connected", leaves the loop
  after this single attempt and fails, without the nine remaining attempts.
\<close>

theorem connect_gives_up_after_one_timeout:
  "fst (connect (\<lambda>attempt. Inl TimeoutError) (init default_config 0))
     = Inl (RuntimeError ''websim follower: cannot connect to simulator'') \<and>
   snd (snd (connect (\<lambda>attempt. Inl TimeoutError) (init default_config 0)))
     = [Connecting 2, PrintConnected] \<and>
   attempts (snd (snd (connect (\<lambda>attempt. Inl TimeoutError) (init default_config 0)))) = 1 \<and>
   ws (fst (snd (connect (\<lambda>attempt. Inl TimeoutError) (init default_config 0)))) = None"
proof -
  have "ws (init default_config 0) = None" by (simp add: init_def)
  from connect_timeout_stops[OF this, of "\<lambda>attempt. Inl TimeoutError"]
  show ?thesis by (simp add: attempts_def init_def)
qed

end
